theory Spec2Isabelle
  imports Main
begin

section \<open>The syntax tree handed over by go/parser\<close>

text \<open>
  xgotext (cli/xgotext/main.go) walks the syntax tree of a Go file and looks at call
  expressions only. The tree is modelled with the node kinds the program distinguishes:
  basic literals with their token kind and raw text, identifiers with the kind of the
  object they resolve to (\<open>None\<close> is Go's \<open>nil\<close> object of an unresolved identifier),
  selector expressions, call expressions, and every other node with its children in the
  order \<open>ast.Inspect\<close> visits them.
\<close>

datatype token = token_INT | token_FLOAT | token_IMAG | token_CHAR | token_STRING

datatype objKind = Bad | Pkg | Con | Typ | Var | Fun | Lbl

record position =
  Filename :: string
  Line :: nat

datatype node =
    BasicLit token string
  | Ident string "objKind option"
  | SelectorExpr node string
  | CallExpr node position "node list"
  | OtherNode "node list"

text \<open>
  \<open>CallExpr fn lparen args\<close> carries \<open>call.Fun\<close>, the value of
  \<open>fset.Position(call.Lparen)\<close> and \<open>call.Args\<close>; \<open>SelectorExpr x sel\<close> carries
  \<open>X\<close> and \<open>Sel.String()\<close>.
\<close>

section \<open>Errors, the environment and the program state\<close>

text \<open>
  \<open>log.Fatal\<close> prints and exits with status 1; a failed type assertion or a nil
  dereference panics. Both end the run and are results of the model.
\<close>

datatype error = Fatal | Panic

text \<open>
  The Go library and the operating system are parameters: \<open>strconv.Unquote\<close>
  (\<open>None\<close> is its error), \<open>path.Join\<close> on two elements, whether \<open>os.OpenFile\<close>
  with \<open>O_TRUNC|O_CREATE|O_WRONLY\<close> fails on a path, \<open>parser.ParseFile\<close>,
  \<open>parser.ParseDir\<close> (for each package its file names, in the order in which the
  \<open>range\<close> loops of \<open>parseDir\<close> deliver the map entries) and \<open>os.Stat\<close>
  (\<open>Some True\<close> for a directory).
\<close>

record env =
  Unquote :: "string \<Rightarrow> string option"
  Join :: "string \<Rightarrow> string \<Rightarrow> string"
  OpenFileFails :: "string \<Rightarrow> bool"
  ParseFile :: "string \<Rightarrow> node option"
  ParseDir :: "string \<Rightarrow> string list list option"
  Stat :: "string \<Rightarrow> bool option"

text \<open>
  An open \<open>*os.File\<close> is an entry of the table \<open>openFiles\<close>: the path it was opened
  on and its write offset. \<open>domainFiles\<close> maps a domain to the index of its file, as
  the Go map holds a pointer. \<open>fs\<close> is the content of the files on disk.
\<close>

record ofile =
  fpath :: string
  foffset :: nat

record state =
  outputDir :: string
  domainFiles :: "string \<rightharpoonup> nat"
  currentDomain :: string
  currentFile :: string
  openFiles :: "ofile list"
  fs :: "string \<rightharpoonup> string"

definition initState :: "(string \<rightharpoonup> string) \<Rightarrow> state" where
  "initState disk =
     \<lparr>outputDir = [], domainFiles = Map.empty, currentDomain = ''default'',
      currentFile = [], openFiles = [], fs = disk\<rparr>"

section \<open>Writing to a file\<close>

text \<open>
  \<open>f.Write(b)\<close> on a file opened without \<open>O_APPEND\<close> stores \<open>b\<close> at the offset
  of \<open>f\<close>, filling a gap with zero bytes, and advances the offset. The program ignores
  the result of \<open>Write\<close>.
\<close>

definition pwrite :: "string \<Rightarrow> nat \<Rightarrow> string \<Rightarrow> string" where
  "pwrite c off b =
     take off (c @ replicate (off - length c) (CHR 0x00)) @ b @ drop (off + length b) c"

definition fileWrite :: "nat \<Rightarrow> string \<Rightarrow> state \<Rightarrow> state" where
  "fileWrite f b s =
     (if f < length (openFiles s) then
        let ofl = openFiles s ! f;
            c = (case fs s (fpath ofl) of Some c \<Rightarrow> c | None \<Rightarrow> [])
        in s\<lparr>openFiles := (openFiles s)[f := ofl\<lparr>foffset := foffset ofl + length b\<rparr>],
             fs := (fs s)(fpath ofl \<mapsto> pwrite c (foffset ofl) b)\<rparr>
      else s)"

definition poHeader :: string where
  \<open>poHeader =
     ''msgid ""\<newline>'' @
     ''msgstr ""\<newline>'' @
     ''"Plural-Forms: nplurals=2; plural=(n != 1);'' @ [CHR 0x5C] @ ''n"\<newline>'' @
     ''"MIME-Version: 1.0'' @ [CHR 0x5C] @ ''n"\<newline>'' @
     ''"Content-Type: text/plain; charset=UTF-8'' @ [CHR 0x5C] @ ''n"\<newline>'' @
     ''"Content-Transfer-Encoding: 8bit'' @ [CHR 0x5C] @ ''n"\<newline>'' @
     ''"Language: '' @ [CHR 0x5C] @ ''n"\<newline>'' @
     ''"X-Generator: xgotext'' @ [CHR 0x5C] @ ''n"\<newline>'' @
     ''\<newline>'' @
     [CHR 0x09]\<close>

definition writePoHeader :: "nat \<Rightarrow> state \<Rightarrow> state" where
  "writePoHeader f s = fileWrite f poHeader s"

definition getDomainFile :: "env \<Rightarrow> string \<Rightarrow> state \<Rightarrow> error + (nat \<times> state)" where
  "getDomainFile E domain s =
     (case domainFiles s domain of
        Some f \<Rightarrow> Inr (f, s)
      | None \<Rightarrow>
          let filePath = Join E (outputDir s) (domain @ ''.po'') in
          if OpenFileFails E filePath then Inl Fatal
          else
            let f = length (openFiles s);
                s1 = s\<lparr>openFiles := openFiles s @ [\<lparr>fpath = filePath, foffset = 0\<rparr>],
                       fs := (fs s)(filePath \<mapsto> [])\<rparr>;
                s2 = s1\<lparr>domainFiles := (domainFiles s1)(domain \<mapsto> f)\<rparr>
            in Inr (f, writePoHeader f s2))"

definition write_msg :: "env \<Rightarrow> string \<Rightarrow> string \<Rightarrow> state \<Rightarrow> error + state" where
  \<open>write_msg E dmn msgid s =
     (case getDomainFile E dmn s of
        Inl e \<Rightarrow> Inl e
      | Inr (f, s0) \<Rightarrow>
          let s1 = fileWrite f (''\<newline>msgid '' @ msgid) s0;
              s2 = fileWrite f ''\<newline>msgstr ""'' s1;
              s3 = fileWrite f ''\<newline>'' s2
          in Inr s3)\<close>

definition writePlural :: "env \<Rightarrow> string \<Rightarrow> string \<Rightarrow> string \<Rightarrow> state \<Rightarrow> error + state" where
  \<open>writePlural E dmn msgid msgidPlural s =
     (case getDomainFile E dmn s of
        Inl e \<Rightarrow> Inl e
      | Inr (f, s0) \<Rightarrow>
          let s1 = fileWrite f (''\<newline>msgid '' @ msgid) s0;
              s2 = fileWrite f (''\<newline>msgid_plural '' @ msgidPlural) s1;
              s3 = fileWrite f ''\<newline>msgstr[0] ""'' s2;
              s4 = fileWrite f ''\<newline>msgstr[1] ""'' s3;
              s5 = fileWrite f ''\<newline>'' s4
          in Inr s5)\<close>

definition writeContext :: "env \<Rightarrow> string \<Rightarrow> string \<Rightarrow> state \<Rightarrow> error + state" where
  "writeContext E dmn ctx s =
     (case getDomainFile E dmn s of
        Inl e \<Rightarrow> Inl e
      | Inr (f, s0) \<Rightarrow> Inr (fileWrite f (''\<newline>msgctxt '' @ ctx) s0))"

definition writeComments :: "env \<Rightarrow> string \<Rightarrow> string \<Rightarrow> string \<Rightarrow> state \<Rightarrow> error + state" where
  "writeComments E dmn file call s =
     (case getDomainFile E dmn s of
        Inl e \<Rightarrow> Inl e
      | Inr (f, s0) \<Rightarrow>
          let s1 = fileWrite f (''\<newline>#: '' @ file) s0;
              s2 = fileWrite f (''\<newline>#. '' @ call) s1
          in Inr s2)"

section \<open>The call-site matcher\<close>

text \<open>\<open>%d\<close> of \<open>fmt.Sprintf\<close> on a line number.\<close>

fun showNat :: "nat \<Rightarrow> string" where
  "showNat n =
     (if n < 10 then [char_of (48 + n)]
      else showNat (n div 10) @ [char_of (48 + n mod 10)])"

declare showNat.simps [simp del]

definition posString :: "position \<Rightarrow> string" where
  "posString p = Filename p @ '':'' @ showNat (Line p)"

text \<open>
  \<open>fmt.Sprintf("%s.%s", call.Fun.(*ast.SelectorExpr).X.(*ast.Ident).Name,
  call.Fun.(*ast.SelectorExpr).Sel.String())\<close>: both type assertions are of the
  one-result form and panic when the node has another type.
\<close>

fun callLabel :: "node \<Rightarrow> error + string" where
  "callLabel (SelectorExpr (Ident name ob) sel) = Inr (name @ ''.'' @ sel)"
| "callLabel _ = Inl Panic"

definition parseGet :: "env \<Rightarrow> node \<Rightarrow> position \<Rightarrow> node list \<Rightarrow> state \<Rightarrow> error + state" where
  "parseGet E fn lparen args s =
     (if length args > 0 then
        (case args ! 0 of
           BasicLit k v \<Rightarrow>
             if k = token_STRING then
               (case callLabel fn of
                  Inl e \<Rightarrow> Inl e
                | Inr lbl \<Rightarrow>
                    (case writeComments E (currentDomain s) (posString lparen) lbl s of
                       Inl e \<Rightarrow> Inl e
                     | Inr s1 \<Rightarrow> write_msg E (currentDomain s1) v s1))
             else Inr s
         | _ \<Rightarrow> Inr s)
      else Inr s)"

text \<open>
  The type switch of \<open>parseGetN\<close> on \<open>call.Args[2]\<close>: \<open>Inr False\<close> is one of its
  \<open>return\<close>s, \<open>Inr True\<close> falls through to the writes, and \<open>x.Obj.Kind\<close> on a
  nil \<open>Obj\<close> is a nil dereference.
\<close>

definition countSwitch :: "node \<Rightarrow> error + bool" where
  "countSwitch x =
     (case x of
        BasicLit k v \<Rightarrow> if k \<noteq> token_INT then Inr False else Inr True
      | Ident name ob \<Rightarrow>
          (case ob of
             None \<Rightarrow> Inl Panic
           | Some knd \<Rightarrow> if knd \<noteq> Var \<and> knd \<noteq> Con then Inr False else Inr True)
      | _ \<Rightarrow> Inr False)"

definition parseGetN :: "env \<Rightarrow> node \<Rightarrow> position \<Rightarrow> node list \<Rightarrow> state \<Rightarrow> error + state" where
  "parseGetN E fn lparen args s =
     (if length args < 3 then Inr s
      else
        (case args ! 0 of
           BasicLit k v \<Rightarrow>
             (case args ! 1 of
                BasicLit k1 v1 \<Rightarrow>
                  if k = token_STRING \<and> k1 = token_STRING then
                    (case countSwitch (args ! 2) of
                       Inl e \<Rightarrow> Inl e
                     | Inr False \<Rightarrow> Inr s
                     | Inr True \<Rightarrow>
                         (case callLabel fn of
                            Inl e \<Rightarrow> Inl e
                          | Inr lbl \<Rightarrow>
                              (case writeComments E (currentDomain s) (posString lparen) lbl s of
                                 Inl e \<Rightarrow> Inl e
                               | Inr s1 \<Rightarrow> writePlural E (currentDomain s1) v v1 s1)))
                  else Inr s
              | _ \<Rightarrow> Inr s)
         | _ \<Rightarrow> Inr s))"

definition parseGetD :: "env \<Rightarrow> node \<Rightarrow> position \<Rightarrow> node list \<Rightarrow> state \<Rightarrow> error + state" where
  "parseGetD E fn lparen args s =
     (if length args > 1 then
        (case args ! 0 of
           BasicLit k v \<Rightarrow>
             (case args ! 1 of
                BasicLit k1 v1 \<Rightarrow>
                  if k = token_STRING \<and> k1 = token_STRING then
                    (case Unquote E v of
                       None \<Rightarrow> Inl Fatal
                     | Some dmn \<Rightarrow>
                         (case callLabel fn of
                            Inl e \<Rightarrow> Inl e
                          | Inr lbl \<Rightarrow>
                              (case writeComments E dmn (posString lparen) lbl s of
                                 Inl e \<Rightarrow> Inl e
                               | Inr s1 \<Rightarrow> write_msg E dmn v1 s1)))
                  else Inr s
              | _ \<Rightarrow> Inr s)
         | _ \<Rightarrow> Inr s)
      else Inr s)"

definition parseGetND :: "env \<Rightarrow> node \<Rightarrow> position \<Rightarrow> node list \<Rightarrow> state \<Rightarrow> error + state" where
  "parseGetND E fn lparen args s =
     (if length args > 2 then
        (case args ! 0 of
           BasicLit k v \<Rightarrow>
             (case args ! 1 of
                BasicLit k1 v1 \<Rightarrow>
                  (case args ! 2 of
                     BasicLit k2 v2 \<Rightarrow>
                       if k = token_STRING \<and> k1 = token_STRING \<and> k2 = token_STRING then
                         (case Unquote E v of
                            None \<Rightarrow> Inl Fatal
                          | Some dmn \<Rightarrow>
                              (case callLabel fn of
                                 Inl e \<Rightarrow> Inl e
                               | Inr lbl \<Rightarrow>
                                   (case writeComments E dmn (posString lparen) lbl s of
                                      Inl e \<Rightarrow> Inl e
                                    | Inr s1 \<Rightarrow> writePlural E dmn v1 v2 s1)))
                       else Inr s
                   | _ \<Rightarrow> Inr s)
              | _ \<Rightarrow> Inr s)
         | _ \<Rightarrow> Inr s)
      else Inr s)"

definition parseGetC :: "env \<Rightarrow> node \<Rightarrow> position \<Rightarrow> node list \<Rightarrow> state \<Rightarrow> error + state" where
  "parseGetC E fn lparen args s =
     (if length args > 1 then
        (case args ! 0 of
           BasicLit k v \<Rightarrow>
             (case args ! 1 of
                BasicLit k1 v1 \<Rightarrow>
                  if k = token_STRING \<and> k1 = token_STRING then
                    (case callLabel fn of
                       Inl e \<Rightarrow> Inl e
                     | Inr lbl \<Rightarrow>
                         (case writeComments E (currentDomain s) (posString lparen) lbl s of
                            Inl e \<Rightarrow> Inl e
                          | Inr s1 \<Rightarrow>
                              (case writeContext E (currentDomain s1) v1 s1 of
                                 Inl e \<Rightarrow> Inl e
                               | Inr s2 \<Rightarrow> write_msg E (currentDomain s2) v s2)))
                  else Inr s
              | _ \<Rightarrow> Inr s)
         | _ \<Rightarrow> Inr s)
      else Inr s)"

definition parseGetNC :: "env \<Rightarrow> node \<Rightarrow> position \<Rightarrow> node list \<Rightarrow> state \<Rightarrow> error + state" where
  "parseGetNC E fn lparen args s =
     (if length args > 3 then
        (case args ! 0 of
           BasicLit k v \<Rightarrow>
             (case args ! 1 of
                BasicLit k1 v1 \<Rightarrow>
                  (case args ! 3 of
                     BasicLit k3 v3 \<Rightarrow>
                       if k = token_STRING \<and> k1 = token_STRING \<and> k3 = token_STRING then
                         (case callLabel fn of
                            Inl e \<Rightarrow> Inl e
                          | Inr lbl \<Rightarrow>
                              (case writeComments E (currentDomain s) (posString lparen) lbl s of
                                 Inl e \<Rightarrow> Inl e
                               | Inr s1 \<Rightarrow>
                                   (case writeContext E (currentDomain s1) v3 s1 of
                                      Inl e \<Rightarrow> Inl e
                                    | Inr s2 \<Rightarrow> writePlural E (currentDomain s2) v v1 s2)))
                       else Inr s
                   | _ \<Rightarrow> Inr s)
              | _ \<Rightarrow> Inr s)
         | _ \<Rightarrow> Inr s)
      else Inr s)"

definition parseGetDC :: "env \<Rightarrow> node \<Rightarrow> position \<Rightarrow> node list \<Rightarrow> state \<Rightarrow> error + state" where
  "parseGetDC E fn lparen args s =
     (if length args > 2 then
        (case args ! 0 of
           BasicLit k v \<Rightarrow>
             (case args ! 1 of
                BasicLit k1 v1 \<Rightarrow>
                  (case args ! 2 of
                     BasicLit k2 v2 \<Rightarrow>
                       if k = token_STRING \<and> k1 = token_STRING \<and> k2 = token_STRING then
                         (case Unquote E v of
                            None \<Rightarrow> Inl Fatal
                          | Some dmn \<Rightarrow>
                              (case callLabel fn of
                                 Inl e \<Rightarrow> Inl e
                               | Inr lbl \<Rightarrow>
                                   (case writeComments E dmn (posString lparen) lbl s of
                                      Inl e \<Rightarrow> Inl e
                                    | Inr s1 \<Rightarrow>
                                        (case writeContext E dmn v2 s1 of
                                           Inl e \<Rightarrow> Inl e
                                         | Inr s2 \<Rightarrow> write_msg E dmn v1 s2))))
                       else Inr s
                   | _ \<Rightarrow> Inr s)
              | _ \<Rightarrow> Inr s)
         | _ \<Rightarrow> Inr s)
      else Inr s)"

definition parseGetNDC :: "env \<Rightarrow> node \<Rightarrow> position \<Rightarrow> node list \<Rightarrow> state \<Rightarrow> error + state" where
  "parseGetNDC E fn lparen args s =
     (if length args > 4 then
        (case args ! 0 of
           BasicLit k v \<Rightarrow>
             (case args ! 1 of
                BasicLit k1 v1 \<Rightarrow>
                  (case args ! 2 of
                     BasicLit k2 v2 \<Rightarrow>
                       (case args ! 4 of
                          BasicLit k4 v4 \<Rightarrow>
                            if k = token_STRING \<and> k1 = token_STRING \<and> k2 = token_STRING \<and> k4 = token_STRING then
                              (case Unquote E v of
                                 None \<Rightarrow> Inl Fatal
                               | Some dmn \<Rightarrow>
                                   (case callLabel fn of
                                      Inl e \<Rightarrow> Inl e
                                    | Inr lbl \<Rightarrow>
                                        (case writeComments E dmn (posString lparen) lbl s of
                                           Inl e \<Rightarrow> Inl e
                                         | Inr s1 \<Rightarrow>
                                             (case writeContext E dmn v4 s1 of
                                                Inl e \<Rightarrow> Inl e
                                              | Inr s2 \<Rightarrow> writePlural E dmn v1 v2 s2))))
                            else Inr s
                        | _ \<Rightarrow> Inr s)
                   | _ \<Rightarrow> Inr s)
              | _ \<Rightarrow> Inr s)
         | _ \<Rightarrow> Inr s)
      else Inr s)"

definition inspectCallExpr :: "env \<Rightarrow> node \<Rightarrow> position \<Rightarrow> node list \<Rightarrow> state \<Rightarrow> error + state" where
  "inspectCallExpr E fn lparen args s =
     (case fn of
        SelectorExpr x sel \<Rightarrow>
          if sel = ''Get'' then parseGet E fn lparen args s
          else if sel = ''GetN'' then parseGetN E fn lparen args s
          else if sel = ''GetD'' then parseGetD E fn lparen args s
          else if sel = ''GetND'' then parseGetND E fn lparen args s
          else if sel = ''GetC'' then parseGetC E fn lparen args s
          else if sel = ''GetNC'' then parseGetNC E fn lparen args s
          else if sel = ''GetDC'' then parseGetDC E fn lparen args s
          else if sel = ''GetNDC'' then parseGetNDC E fn lparen args s
          else Inr s
      | _ \<Rightarrow> Inr s)"

section \<open>Traversal, files and directories\<close>

text \<open>
  \<open>ast.Inspect(node, inspectFile)\<close>: \<open>inspectFile\<close> always returns true, so the walk
  is the full pre-order walk; at a call expression \<open>inspectCallExpr\<close> runs first, then
  \<open>Fun\<close> and the arguments are visited.
\<close>

fun inspectNode :: "env \<Rightarrow> node \<Rightarrow> state \<Rightarrow> error + state"
  and inspectList :: "env \<Rightarrow> node list \<Rightarrow> state \<Rightarrow> error + state" where
  "inspectNode E (CallExpr fn lparen args) s =
     (case inspectCallExpr E fn lparen args s of
        Inl e \<Rightarrow> Inl e
      | Inr s1 \<Rightarrow>
          (case inspectNode E fn s1 of
             Inl e \<Rightarrow> Inl e
           | Inr s2 \<Rightarrow> inspectList E args s2))"
| "inspectNode E (SelectorExpr x sel) s = inspectNode E x s"
| "inspectNode E (OtherNode ns) s = inspectList E ns s"
| "inspectNode E (BasicLit k v) s = Inr s"
| "inspectNode E (Ident name ob) s = Inr s"
| "inspectList E [] s = Inr s"
| "inspectList E (n # ns) s =
     (case inspectNode E n s of
        Inl e \<Rightarrow> Inl e
      | Inr s1 \<Rightarrow> inspectList E ns s1)"

definition parseFile :: "env \<Rightarrow> string \<Rightarrow> state \<Rightarrow> error + state" where
  "parseFile E fileName s =
     (let s1 = s\<lparr>currentFile := fileName\<rparr> in
      case ParseFile E fileName of
        None \<Rightarrow> Inl Fatal
      | Some nd \<Rightarrow> inspectNode E nd s1)"

fun parseFiles :: "env \<Rightarrow> string list \<Rightarrow> state \<Rightarrow> error + state" where
  "parseFiles E [] s = Inr s"
| "parseFiles E (fn # fns) s =
     (case parseFile E fn s of
        Inl e \<Rightarrow> Inl e
      | Inr s1 \<Rightarrow> parseFiles E fns s1)"

fun parsePkgs :: "env \<Rightarrow> string list list \<Rightarrow> state \<Rightarrow> error + state" where
  "parsePkgs E [] s = Inr s"
| "parsePkgs E (pkg # pkgs) s =
     (case parseFiles E pkg s of
        Inl e \<Rightarrow> Inl e
      | Inr s1 \<Rightarrow> parsePkgs E pkgs s1)"

definition parseDir :: "env \<Rightarrow> string \<Rightarrow> state \<Rightarrow> error + state" where
  "parseDir E dirName s =
     (case ParseDir E dirName of
        None \<Rightarrow> Inl Fatal
      | Some pkgs \<Rightarrow> parsePkgs E pkgs s)"

text \<open>\<open>main\<close> on \<open>os.Args\<close> and the files on disk before the run.\<close>

definition main :: "env \<Rightarrow> string list \<Rightarrow> (string \<rightharpoonup> string) \<Rightarrow> error + state" where
  "main E args disk =
     (let s0 = initState disk in
      if length args < 2 then Inl Fatal
      else
        let s1 = (if length args > 2 then s0\<lparr>outputDir := args ! 2\<rparr> else s0) in
        case Stat E (args ! 1) of
          None \<Rightarrow> Inl Fatal
        | Some isDir \<Rightarrow>
            if isDir then parseDir E (args ! 1) s1 else parseFile E (args ! 1) s1)"

section \<open>The writer, the records and the signature table of the specification\<close>

text \<open>
  The catalog writer of the specification: resolve the stream of the domain, then append
  one block of text with a single \<open>Write\<close>. The four writer functions of the program
  are compared with it below.
\<close>

definition appendBlock :: "env \<Rightarrow> string \<Rightarrow> string \<Rightarrow> state \<Rightarrow> error + state" where
  "appendBlock E d txt s =
     (case getDomainFile E d s of
        Inl e \<Rightarrow> Inl e
      | Inr (f, s0) \<Rightarrow> Inr (fileWrite f txt s0))"

text \<open>
  The state right after \<open>os.OpenFile\<close> and the store into \<open>domainFiles\<close>, and
  the path \<open>path.Join(outputDir, domain+".po")\<close>.
\<close>

definition opened :: "env \<Rightarrow> string \<Rightarrow> state \<Rightarrow> state" where
  "opened E d s =
     s\<lparr>openFiles := openFiles s @ [\<lparr>fpath = Join E (outputDir s) (d @ ''.po''), foffset = 0\<rparr>],
       fs := (fs s)(Join E (outputDir s) (d @ ''.po'') \<mapsto> []),
       domainFiles := (domainFiles s)(d \<mapsto> length (openFiles s))\<rparr>"

definition catalogPath :: "env \<Rightarrow> string \<Rightarrow> string \<Rightarrow> string" where
  "catalogPath E out d = Join E out (d @ ''.po'')"

text \<open>
  The Extraction Record of the specification and the text of its catalog block, written
  line by line in the order the specification gives.
\<close>

record extraction =
  rec_domain :: string
  rec_msgid :: string
  rec_msgidPlural :: "string option"
  rec_context :: "string option"
  rec_location :: position
  rec_callLabel :: string

definition po_block :: "extraction \<Rightarrow> string" where
  \<open>po_block r =
     ''\<newline>'' @
     ''#: '' @ Filename (rec_location r) @ '':'' @ showNat (Line (rec_location r)) @ ''\<newline>'' @
     ''#. '' @ rec_callLabel r @ ''\<newline>'' @
     (case rec_context r of
        None \<Rightarrow> []
      | Some c \<Rightarrow> ''msgctxt '' @ c @ ''\<newline>'') @
     (case rec_msgidPlural r of
        None \<Rightarrow>
          ''msgid '' @ rec_msgid r @ ''\<newline>'' @
          ''msgstr ""\<newline>''
      | Some p \<Rightarrow>
          ''msgid '' @ rec_msgid r @ ''\<newline>'' @
          ''msgid_plural '' @ p @ ''\<newline>'' @
          ''msgstr[0] ""\<newline>'' @
          ''msgstr[1] ""\<newline>'')\<close>

text \<open>
  The Call Signature Descriptor and the table of the eight variants as the specification
  lists them; \<open>countArgPosition\<close> is the position the table marks as numeric. The
  message id of a variant with a domain argument is the first literal after the domain.
\<close>

record signature =
  methodName :: string
  minArgCount :: nat
  stringArgPositions :: "nat list"
  domainSource :: "nat option"
  isPlural :: bool
  contextArgPosition :: "nat option"
  countArgPosition :: "nat option"

definition signatureTable :: "signature list" where
  "signatureTable =
     [\<lparr>methodName = ''Get'', minArgCount = 1, stringArgPositions = [0], domainSource = None,
        isPlural = False, contextArgPosition = None, countArgPosition = None\<rparr>,
      \<lparr>methodName = ''GetN'', minArgCount = 3, stringArgPositions = [0, 1], domainSource = None,
        isPlural = True, contextArgPosition = None, countArgPosition = Some 2\<rparr>,
      \<lparr>methodName = ''GetD'', minArgCount = 2, stringArgPositions = [0, 1], domainSource = Some 0,
        isPlural = False, contextArgPosition = None, countArgPosition = None\<rparr>,
      \<lparr>methodName = ''GetND'', minArgCount = 3, stringArgPositions = [0, 1, 2], domainSource = Some 0,
        isPlural = True, contextArgPosition = None, countArgPosition = None\<rparr>,
      \<lparr>methodName = ''GetC'', minArgCount = 2, stringArgPositions = [0, 1], domainSource = None,
        isPlural = False, contextArgPosition = Some 1, countArgPosition = None\<rparr>,
      \<lparr>methodName = ''GetNC'', minArgCount = 4, stringArgPositions = [0, 1, 3], domainSource = None,
        isPlural = True, contextArgPosition = Some 3, countArgPosition = Some 2\<rparr>,
      \<lparr>methodName = ''GetDC'', minArgCount = 3, stringArgPositions = [0, 1, 2], domainSource = Some 0,
        isPlural = False, contextArgPosition = Some 2, countArgPosition = None\<rparr>,
      \<lparr>methodName = ''GetNDC'', minArgCount = 5, stringArgPositions = [0, 1, 2, 4], domainSource = Some 0,
        isPlural = True, contextArgPosition = Some 4, countArgPosition = Some 3\<rparr>]"

definition lookupSignature :: "string \<Rightarrow> signature option" where
  "lookupSignature m = find (\<lambda>sg. methodName sg = m) signatureTable"

definition isStringLit :: "node \<Rightarrow> bool" where
  "isStringLit x = (case x of BasicLit k v \<Rightarrow> k = token_STRING | _ \<Rightarrow> False)"

definition litValue :: "node \<Rightarrow> string" where
  "litValue x = (case x of BasicLit k v \<Rightarrow> v | _ \<Rightarrow> [])"

definition countArgOK :: "node \<Rightarrow> bool" where
  "countArgOK x =
     (case x of
        BasicLit k v \<Rightarrow> k = token_INT
      | Ident name ob \<Rightarrow> ob = Some Var \<or> ob = Some Con
      | _ \<Rightarrow> False)"

definition literalsMet :: "signature \<Rightarrow> node list \<Rightarrow> bool" where
  "literalsMet sg args =
     (minArgCount sg \<le> length args \<and> list_all (\<lambda>i. isStringLit (args ! i)) (stringArgPositions sg))"

definition countMet :: "signature \<Rightarrow> node list \<Rightarrow> bool" where
  "countMet sg args = (case countArgPosition sg of None \<Rightarrow> True | Some i \<Rightarrow> countArgOK (args ! i))"

definition msgidPosition :: "signature \<Rightarrow> nat" where
  "msgidPosition sg = (case domainSource sg of None \<Rightarrow> 0 | Some i \<Rightarrow> 1)"

definition pluralPosition :: "signature \<Rightarrow> nat" where
  "pluralPosition sg = (case domainSource sg of None \<Rightarrow> 1 | Some i \<Rightarrow> 2)"

definition decodeDomain :: "env \<Rightarrow> string \<Rightarrow> signature \<Rightarrow> node list \<Rightarrow> string option" where
  "decodeDomain E cur sg args =
     (case domainSource sg of None \<Rightarrow> Some cur | Some i \<Rightarrow> Unquote E (litValue (args ! i)))"

definition recordFor :: "signature \<Rightarrow> string \<Rightarrow> string \<Rightarrow> position \<Rightarrow> node list \<Rightarrow> extraction" where
  "recordFor sg d lbl lparen args =
     \<lparr>rec_domain = d,
      rec_msgid = litValue (args ! msgidPosition sg),
      rec_msgidPlural =
        (if isPlural sg then Some (litValue (args ! pluralPosition sg)) else None),
      rec_context = map_option (\<lambda>i. litValue (args ! i)) (contextArgPosition sg),
      rec_location = lparen,
      rec_callLabel = lbl\<rparr>"

definition isIdent :: "node \<Rightarrow> bool" where
  "isIdent x = (case x of Ident name ob \<Rightarrow> True | _ \<Rightarrow> False)"

text \<open>
  The header block as the output-format section of the specification prints it: eight
  lines, each ended by a line feed.
\<close>

definition specHeader :: string where
  \<open>specHeader =
     ''msgid ""\<newline>'' @
     ''msgstr ""\<newline>'' @
     ''"Plural-Forms: nplurals=2; plural=(n != 1);'' @ [CHR 0x5C] @ ''n"\<newline>'' @
     ''"MIME-Version: 1.0'' @ [CHR 0x5C] @ ''n"\<newline>'' @
     ''"Content-Type: text/plain; charset=UTF-8'' @ [CHR 0x5C] @ ''n"\<newline>'' @
     ''"Content-Transfer-Encoding: 8bit'' @ [CHR 0x5C] @ ''n"\<newline>'' @
     ''"Language: '' @ [CHR 0x5C] @ ''n"\<newline>'' @
     ''"X-Generator: xgotext'' @ [CHR 0x5C] @ ''n"\<newline>''\<close>

section \<open>Invariants of the registry\<close>

text \<open>
  In every state the program reaches, a registered domain points to an open file of the
  table, opened on the catalog path of that domain, and no two domains point to the same
  file.
\<close>

definition registry_ok :: "env \<Rightarrow> state \<Rightarrow> bool" where
  "registry_ok E s =
     ((\<forall>d f. domainFiles s d = Some f \<longrightarrow>
          f < length (openFiles s) \<and> fpath (openFiles s ! f) = catalogPath E (outputDir s) d) \<and>
      inj_on (domainFiles s) (dom (domainFiles s)))"

text \<open>
  A run of the registry and the writer is a sequence of calls of the four writer
  functions. \<open>tracked\<close> relates a state to the calls made so far: every registered
  domain's file holds the header followed by the texts written for that domain, in order,
  and its stream stands at the end of the file.
\<close>

datatype wcall =
    Comments string string string
  | Context string string
  | Msg string string
  | Plural string string string

fun runCall :: "env \<Rightarrow> wcall \<Rightarrow> state \<Rightarrow> error + state" where
  "runCall E (Comments d file call) s = writeComments E d file call s"
| "runCall E (Context d ctx) s = writeContext E d ctx s"
| "runCall E (Msg d m) s = write_msg E d m s"
| "runCall E (Plural d m p) s = writePlural E d m p s"

fun wdomain :: "wcall \<Rightarrow> string" where
  "wdomain (Comments d file call) = d"
| "wdomain (Context d ctx) = d"
| "wdomain (Msg d m) = d"
| "wdomain (Plural d m p) = d"

fun wtext :: "wcall \<Rightarrow> string" where
  \<open>wtext (Comments d file call) = ''\<newline>#: '' @ file @ ''\<newline>#. '' @ call\<close>
| \<open>wtext (Context d ctx) = ''\<newline>msgctxt '' @ ctx\<close>
| \<open>wtext (Msg d m) = ''\<newline>msgid '' @ m @ ''\<newline>msgstr ""\<newline>''\<close>
| \<open>wtext (Plural d m p) =
     ''\<newline>msgid '' @ m @ ''\<newline>msgid_plural '' @ p @ ''\<newline>msgstr[0] ""\<newline>msgstr[1] ""\<newline>''\<close>

fun runCalls :: "env \<Rightarrow> wcall list \<Rightarrow> state \<Rightarrow> error + state" where
  "runCalls E [] s = Inr s"
| "runCalls E (c # cs) s =
     (case runCall E c s of
        Inl e \<Rightarrow> Inl e
      | Inr s1 \<Rightarrow> runCalls E cs s1)"

definition contentOf :: "(string \<times> string) list \<Rightarrow> string \<Rightarrow> string" where
  "contentOf log d = poHeader @ concat (map snd (filter (\<lambda>e. fst e = d) log))"

definition tracked :: "env \<Rightarrow> state \<Rightarrow> (string \<times> string) list \<Rightarrow> bool" where
  "tracked E s log =
     (registry_ok E s \<and> dom (domainFiles s) = fst ` set log \<and>
      (\<forall>d f. domainFiles s d = Some f \<longrightarrow>
         fs s (catalogPath E (outputDir s) d) = Some (contentOf log d) \<and>
         foffset (openFiles s ! f) = length (contentOf log d)))"

text \<open>
  \<open>headed\<close> is the part of \<open>tracked\<close> that does not depend on which paths
  \<open>path.Join\<close> gives to the domains: every registered stream has advanced by the
  length of the header and of the texts written for its domain, and the file at the
  catalog path of a registered domain begins with the header.
\<close>

definition headed :: "env \<Rightarrow> state \<Rightarrow> (string \<times> string) list \<Rightarrow> bool" where
  "headed E s log =
     (registry_ok E s \<and> dom (domainFiles s) = fst ` set log \<and>
      (\<forall>d f. domainFiles s d = Some f \<longrightarrow>
         foffset (openFiles s ! f) = length (contentOf log d) \<and>
         (\<exists>c. fs s (catalogPath E (outputDir s) d) = Some c \<and> take (length poHeader) c = poHeader)))"

section \<open>A sample environment\<close>

text \<open>
  Concrete instances use \<open>plainUnquote\<close>, which strips the double quotes of a literal
  without escape sequences as \<open>strconv.Unquote\<close> does and rejects every other text,
  and \<open>plainJoin\<close>, which is \<open>path.Join\<close> on a clean directory and a plain
  file name; they are applied to such inputs only. \<open>sampleEnv\<close> adds three source
  files with one \<open>Get\<close> call each and a package directory \<open>pkg\<close> whose files
  the \<open>range\<close> loop delivers in the given order.
\<close>

definition plainUnquote :: "string \<Rightarrow> string option" where
  "plainUnquote v =
     (if 2 \<le> length v \<and> hd v = CHR 0x22 \<and> last v = CHR 0x22 \<and>
         list_all (\<lambda>c. c \<noteq> CHR 0x22 \<and> c \<noteq> CHR 0x5C \<and> c \<noteq> CHR 0x0A \<and> of_char c < (128::nat))
           (butlast (tl v))
      then Some (butlast (tl v)) else None)"

definition plainJoin :: "string \<Rightarrow> string \<Rightarrow> string" where
  "plainJoin d f = (if d = [] then f else d @ ''/'' @ f)"

definition quoted :: "string \<Rightarrow> string" where
  "quoted v = [CHR 0x22] @ v @ [CHR 0x22]"

definition exampleEnv :: env where
  "exampleEnv =
     \<lparr>Unquote = plainUnquote, Join = plainJoin, OpenFileFails = (\<lambda>p. False),
      ParseFile = (\<lambda>p. None), ParseDir = (\<lambda>p. None), Stat = (\<lambda>p. None)\<rparr>"

definition strLit :: "string \<Rightarrow> node" where
  "strLit v = BasicLit token_STRING (quoted v)"

definition sampleCall :: "string \<Rightarrow> string \<Rightarrow> nat \<Rightarrow> node list \<Rightarrow> node" where
  "sampleCall method file line args =
     CallExpr (SelectorExpr (Ident ''po'' None) method) \<lparr>Filename = file, Line = line\<rparr> args"

definition sampleParseFile :: "string \<Rightarrow> node option" where
  "sampleParseFile p =
     (if p = ''a.go'' then Some (OtherNode [sampleCall ''Get'' ''a.go'' 12 [strLit ''hello'']])
      else if p = ''pkg/a.go'' then Some (OtherNode [sampleCall ''Get'' ''pkg/a.go'' 3 [strLit ''alpha'']])
      else if p = ''pkg/b.go'' then Some (OtherNode [sampleCall ''Get'' ''pkg/b.go'' 3 [strLit ''beta'']])
      else None)"

definition sampleEnv :: "string list list \<Rightarrow> env" where
  "sampleEnv order =
     exampleEnv\<lparr>ParseFile := sampleParseFile,
       ParseDir := (\<lambda>d. if d = ''pkg'' then Some order else None),
       Stat := (\<lambda>p. if p = ''pkg'' then Some True else if sampleParseFile p = None then None else Some False)\<rparr>"

definition sampleCalls :: "wcall list" where
  "sampleCalls =
     [Comments ''app'' ''a.go:3'' ''po.GetD'', Msg ''app'' (quoted ''save''),
      Comments ''default'' ''a.go:4'' ''po.Get'', Msg ''default'' (quoted ''hello''),
      Comments ''app'' ''a.go:5'' ''po.GetDC'', Context ''app'' (quoted ''menu''),
      Msg ''app'' (quoted ''open'')]"

definition catalogOf :: "error + state \<Rightarrow> string \<Rightarrow> string option" where
  "catalogOf r p = (case r of Inl e \<Rightarrow> None | Inr s \<Rightarrow> fs s p)"

text \<open>
  \<open>path.Join\<close> cleans its result, so it drops a leading \<open>./\<close> of the file
  name: \<open>dotJoin\<close> is \<open>path.Join\<close> on a clean directory and a file name that
  is plain but for at most one such prefix. The domains \<open>./app\<close> and \<open>app\<close>
  then have the same catalog path \<open>app.po\<close>. \<open>aliasState\<close> is the state
  after the call \<open>po.GetD("./app", "first")\<close> on line 3 of \<open>a.go\<close> from the
  initial state.
\<close>

definition dotJoin :: "string \<Rightarrow> string \<Rightarrow> string" where
  "dotJoin d f = plainJoin d (if take 2 f = ''./'' then drop 2 f else f)"

definition aliasEnv :: env where
  "aliasEnv = exampleEnv\<lparr>Join := dotJoin\<rparr>"

definition aliasState :: state where
  \<open>aliasState =
     \<lparr>outputDir = [], domainFiles = [''./app'' \<mapsto> 0], currentDomain = ''default'',
      currentFile = [],
      openFiles =
        [\<lparr>fpath = ''app.po'',
          foffset = length (poHeader @
            ''\<newline>#: a.go:3\<newline>#. po.GetD\<newline>msgid "first"\<newline>msgstr ""\<newline>'')\<rparr>],
      fs = [''app.po'' \<mapsto>
        poHeader @ ''\<newline>#: a.go:3\<newline>#. po.GetD\<newline>msgid "first"\<newline>msgstr ""\<newline>'']\<rparr>\<close>

section \<open>Files, the registry and the writers\<close>

lemma pwrite_end: "pwrite c (length c) b = c @ b"
  by (simp add: pwrite_def)

lemma pwrite_pwrite: "pwrite (pwrite c off a) (off + length a) b = pwrite c off (a @ b)"
proof -
  define t where "t = take off (c @ replicate (off - length c) (CHR 0x00))"
  have len: "length t = off"
    by (simp add: t_def)
  have p: "pwrite c off a = (t @ a) @ drop (off + length a) c"
    by (simp add: pwrite_def t_def)
  have tk: "take (off + length a) (((t @ a) @ drop (off + length a) c) @ replicate n z) = t @ a" for n z
    using len by simp
  have dr: "drop (off + length a + length b) ((t @ a) @ drop (off + length a) c)
              = drop (off + length (a @ b)) c"
    using len by (simp add: add.commute add.left_commute)
  have "pwrite (pwrite c off a) (off + length a) b
          = (t @ a) @ b @ drop (off + length (a @ b)) c"
    unfolding p pwrite_def [of "(t @ a) @ drop (off + length a) c"] tk dr ..
  also have "\<dots> = pwrite c off (a @ b)"
    by (simp add: pwrite_def t_def)
  finally show ?thesis .
qed

lemma fileWrite_fields [simp]:
  "outputDir (fileWrite f b s) = outputDir s"
  "domainFiles (fileWrite f b s) = domainFiles s"
  "currentDomain (fileWrite f b s) = currentDomain s"
  "currentFile (fileWrite f b s) = currentFile s"
  "length (openFiles (fileWrite f b s)) = length (openFiles s)"
  by (simp_all add: fileWrite_def Let_def)

lemma fileWrite_fileWrite: "fileWrite f b (fileWrite f a s) = fileWrite f (a @ b) s"
proof (cases "f < length (openFiles s)")
  case True
  then show ?thesis
    by (simp add: fileWrite_def Let_def pwrite_pwrite add.assoc)
next
  case False
  then show ?thesis by (simp add: fileWrite_def)
qed

lemma getDomainFile_cached: "domainFiles s d = Some f \<Longrightarrow> getDomainFile E d s = Inr (f, s)"
  by (simp add: getDomainFile_def)

lemma getDomainFile_fresh:
  "domainFiles s d = None \<Longrightarrow> \<not> OpenFileFails E (Join E (outputDir s) (d @ ''.po'')) \<Longrightarrow>
     getDomainFile E d s = Inr (length (openFiles s), fileWrite (length (openFiles s)) poHeader (opened E d s))"
  by (simp add: getDomainFile_def Let_def writePoHeader_def opened_def)

lemma getDomainFile_fatal:
  "domainFiles s d = None \<Longrightarrow> OpenFileFails E (Join E (outputDir s) (d @ ''.po'')) \<Longrightarrow>
     getDomainFile E d s = Inl Fatal"
  by (simp add: getDomainFile_def Let_def)

lemma getDomainFile_cases:
  assumes "getDomainFile E d s = Inr (f, s0)"
  obtains (cached) "domainFiles s d = Some f" "s0 = s"
    | (fresh) "domainFiles s d = None" "\<not> OpenFileFails E (Join E (outputDir s) (d @ ''.po''))"
        "f = length (openFiles s)" "s0 = fileWrite (length (openFiles s)) poHeader (opened E d s)"
proof (cases "domainFiles s d")
  case None
  show ?thesis
  proof (cases "OpenFileFails E (Join E (outputDir s) (d @ ''.po''))")
    case True
    have "getDomainFile E d s = Inl Fatal"
      using None True by (rule getDomainFile_fatal)
    with assms show ?thesis by simp
  next
    case False
    have "getDomainFile E d s =
            Inr (length (openFiles s), fileWrite (length (openFiles s)) poHeader (opened E d s))"
      using None False by (rule getDomainFile_fresh)
    with assms have "f = length (openFiles s)"
      "s0 = fileWrite (length (openFiles s)) poHeader (opened E d s)" by auto
    with None False show ?thesis by (intro fresh)
  qed
next
  case (Some g)
  have "getDomainFile E d s = Inr (g, s)"
    using Some by (rule getDomainFile_cached)
  with assms have "g = f" "s0 = s" by auto
  with Some show ?thesis by (intro cached) simp_all
qed

lemma getDomainFile_registers:
  "getDomainFile E d s = Inr (f, s0) \<Longrightarrow> domainFiles s0 d = Some f"
  by (erule getDomainFile_cases) (simp_all add: opened_def)

lemma getDomainFile_globals:
  "getDomainFile E d s = Inr (f, s0) \<Longrightarrow>
     outputDir s0 = outputDir s \<and> currentDomain s0 = currentDomain s \<and> currentFile s0 = currentFile s"
  by (erule getDomainFile_cases) (simp_all add: opened_def)

lemma getDomainFile_again:
  "getDomainFile E d s = Inr (f, s0) \<Longrightarrow> getDomainFile E d (fileWrite f b s0) = Inr (f, fileWrite f b s0)"
  by (rule getDomainFile_cached) (simp add: getDomainFile_registers [of E d s f s0])

lemma appendBlock_seq:
  "(case appendBlock E d a s of Inl e \<Rightarrow> Inl e | Inr s1 \<Rightarrow> appendBlock E d b s1)
     = appendBlock E d (a @ b) s"
proof (cases "getDomainFile E d s")
  case (Inl e)
  then show ?thesis by (simp add: appendBlock_def)
next
  case (Inr r)
  obtain f s0 where r: "r = (f, s0)" by (cases r)
  show ?thesis
    using Inr getDomainFile_again [of E d s f s0 a]
    by (simp add: appendBlock_def r fileWrite_fileWrite)
qed

lemma appendBlock_currentDomain:
  "appendBlock E d a s = Inr s1 \<Longrightarrow> currentDomain s1 = currentDomain s"
  by (auto simp: appendBlock_def split: sum.splits prod.splits dest: getDomainFile_globals)

lemma appendBlock_seq_current:
  "(case appendBlock E (currentDomain s) a s of Inl e \<Rightarrow> Inl e
      | Inr s1 \<Rightarrow> appendBlock E (currentDomain s1) b s1)
     = appendBlock E (currentDomain s) (a @ b) s"
proof (cases "appendBlock E (currentDomain s) a s")
  case (Inl e)
  then show ?thesis
    using appendBlock_seq [where E = E and d = "currentDomain s" and a = a and s = s and b = b, symmetric]
    by simp
next
  case (Inr s1)
  then show ?thesis
    using appendBlock_seq [where E = E and d = "currentDomain s" and a = a and s = s and b = b]
      appendBlock_currentDomain [OF Inr]
    by simp
qed

lemma writeComments_appendBlock:
  "writeComments E d file call s = appendBlock E d (''\<newline>#: '' @ file @ ''\<newline>#. '' @ call) s"
  by (auto simp: writeComments_def appendBlock_def Let_def fileWrite_fileWrite split: sum.splits)

lemma writeContext_appendBlock:
  "writeContext E d ctx s = appendBlock E d (''\<newline>msgctxt '' @ ctx) s"
  by (simp only: writeContext_def appendBlock_def)

lemma write_msg_appendBlock:
  \<open>write_msg E d m s = appendBlock E d (''\<newline>msgid '' @ m @ ''\<newline>msgstr ""\<newline>'') s\<close>
  by (auto simp: write_msg_def appendBlock_def Let_def fileWrite_fileWrite split: sum.splits)

lemma writePlural_appendBlock:
  \<open>writePlural E d m p s =
     appendBlock E d (''\<newline>msgid '' @ m @ ''\<newline>msgid_plural '' @ p @
        ''\<newline>msgstr[0] ""\<newline>msgstr[1] ""\<newline>'') s\<close>
  by (auto simp: writePlural_def appendBlock_def Let_def fileWrite_fileWrite split: sum.splits)

lemmas writers_appendBlock =
  writeComments_appendBlock writeContext_appendBlock write_msg_appendBlock writePlural_appendBlock

section \<open>Matched and skipped call sites\<close>

text \<open>
  On a call that meets the checks of its variant, each parse function is one append of the
  block of the record it forms, unless the label cannot be built.
\<close>

lemma parseGet_matched:
  assumes "0 < length args" "args ! 0 = BasicLit token_STRING v"
  shows "parseGet E fn lparen args s =
           (case callLabel fn of Inl e \<Rightarrow> Inl e | Inr lbl \<Rightarrow> appendBlock E (currentDomain s)
             (po_block \<lparr>rec_domain = currentDomain s, rec_msgid = v, rec_msgidPlural = None,
                rec_context = None, rec_location = lparen, rec_callLabel = lbl\<rparr>) s)"
  using assms
  by (simp add: parseGet_def writers_appendBlock appendBlock_seq_current po_block_def posString_def cong: sum.case_cong split: sum.splits)

lemma parseGetN_matched:
  assumes "\<not> length args < 3" "args ! 0 = BasicLit token_STRING v"
    "args ! 1 = BasicLit token_STRING v1" "countSwitch (args ! 2) = Inr True"
  shows "parseGetN E fn lparen args s =
           (case callLabel fn of Inl e \<Rightarrow> Inl e | Inr lbl \<Rightarrow> appendBlock E (currentDomain s)
             (po_block \<lparr>rec_domain = currentDomain s, rec_msgid = v, rec_msgidPlural = Some v1,
                rec_context = None, rec_location = lparen, rec_callLabel = lbl\<rparr>) s)"
  using assms
  by (simp add: parseGetN_def writers_appendBlock appendBlock_seq_current po_block_def posString_def cong: sum.case_cong split: sum.splits)

lemma parseGetD_matched:
  assumes "1 < length args" "args ! 0 = BasicLit token_STRING v"
    "args ! 1 = BasicLit token_STRING v1" "Unquote E v = Some d"
  shows "parseGetD E fn lparen args s =
           (case callLabel fn of Inl e \<Rightarrow> Inl e | Inr lbl \<Rightarrow> appendBlock E d
             (po_block \<lparr>rec_domain = d, rec_msgid = v1, rec_msgidPlural = None,
                rec_context = None, rec_location = lparen, rec_callLabel = lbl\<rparr>) s)"
  using assms
  by (simp add: parseGetD_def writers_appendBlock appendBlock_seq po_block_def posString_def cong: sum.case_cong split: sum.splits)

lemma parseGetND_matched:
  assumes "2 < length args" "args ! 0 = BasicLit token_STRING v"
    "args ! 1 = BasicLit token_STRING v1" "args ! 2 = BasicLit token_STRING v2"
    "Unquote E v = Some d"
  shows "parseGetND E fn lparen args s =
           (case callLabel fn of Inl e \<Rightarrow> Inl e | Inr lbl \<Rightarrow> appendBlock E d
             (po_block \<lparr>rec_domain = d, rec_msgid = v1, rec_msgidPlural = Some v2,
                rec_context = None, rec_location = lparen, rec_callLabel = lbl\<rparr>) s)"
  using assms
  by (simp add: parseGetND_def writers_appendBlock appendBlock_seq po_block_def posString_def cong: sum.case_cong split: sum.splits)

lemma parseGetC_matched:
  assumes "1 < length args" "args ! 0 = BasicLit token_STRING v"
    "args ! 1 = BasicLit token_STRING v1"
  shows "parseGetC E fn lparen args s =
           (case callLabel fn of Inl e \<Rightarrow> Inl e | Inr lbl \<Rightarrow> appendBlock E (currentDomain s)
             (po_block \<lparr>rec_domain = currentDomain s, rec_msgid = v, rec_msgidPlural = None,
                rec_context = Some v1, rec_location = lparen, rec_callLabel = lbl\<rparr>) s)"
  using assms
  by (simp add: parseGetC_def writers_appendBlock appendBlock_seq_current po_block_def posString_def cong: sum.case_cong split: sum.splits)

lemma parseGetNC_matched:
  assumes "3 < length args" "args ! 0 = BasicLit token_STRING v"
    "args ! 1 = BasicLit token_STRING v1" "args ! 3 = BasicLit token_STRING v3"
  shows "parseGetNC E fn lparen args s =
           (case callLabel fn of Inl e \<Rightarrow> Inl e | Inr lbl \<Rightarrow> appendBlock E (currentDomain s)
             (po_block \<lparr>rec_domain = currentDomain s, rec_msgid = v, rec_msgidPlural = Some v1,
                rec_context = Some v3, rec_location = lparen, rec_callLabel = lbl\<rparr>) s)"
  using assms
  by (simp add: parseGetNC_def writers_appendBlock appendBlock_seq_current po_block_def posString_def cong: sum.case_cong split: sum.splits)

lemma parseGetDC_matched:
  assumes "2 < length args" "args ! 0 = BasicLit token_STRING v"
    "args ! 1 = BasicLit token_STRING v1" "args ! 2 = BasicLit token_STRING v2"
    "Unquote E v = Some d"
  shows "parseGetDC E fn lparen args s =
           (case callLabel fn of Inl e \<Rightarrow> Inl e | Inr lbl \<Rightarrow> appendBlock E d
             (po_block \<lparr>rec_domain = d, rec_msgid = v1, rec_msgidPlural = None,
                rec_context = Some v2, rec_location = lparen, rec_callLabel = lbl\<rparr>) s)"
  using assms
  by (simp add: parseGetDC_def writers_appendBlock appendBlock_seq po_block_def posString_def cong: sum.case_cong split: sum.splits)

lemma parseGetNDC_matched:
  assumes "4 < length args" "args ! 0 = BasicLit token_STRING v"
    "args ! 1 = BasicLit token_STRING v1" "args ! 2 = BasicLit token_STRING v2"
    "args ! 4 = BasicLit token_STRING v4" "Unquote E v = Some d"
  shows "parseGetNDC E fn lparen args s =
           (case callLabel fn of Inl e \<Rightarrow> Inl e | Inr lbl \<Rightarrow> appendBlock E d
             (po_block \<lparr>rec_domain = d, rec_msgid = v1, rec_msgidPlural = Some v2,
                rec_context = Some v4, rec_location = lparen, rec_callLabel = lbl\<rparr>) s)"
  using assms
  by (simp add: parseGetNDC_def writers_appendBlock appendBlock_seq po_block_def posString_def cong: sum.case_cong split: sum.splits)

lemma isStringLit_obtain:
  assumes "isStringLit x"
  obtains v where "x = BasicLit token_STRING v"
  using assms by (cases x) (simp_all add: isStringLit_def)

lemma litValue_BasicLit [simp]: "litValue (BasicLit k v) = v"
  by (simp add: litValue_def)

lemma countArgOK_countSwitch: "countArgOK x \<Longrightarrow> countSwitch x = Inr True"
  by (cases x) (auto simp: countArgOK_def countSwitch_def)

lemma lookupSignature_cases:
  assumes "lookupSignature sel = Some sg"
  shows "sg \<in> set signatureTable \<and> methodName sg = sel"
proof -
  from assms obtain i where "i < length signatureTable" "methodName (signatureTable ! i) = sel"
    "sg = signatureTable ! i"
    unfolding lookupSignature_def find_Some_iff by blast
  then show ?thesis by simp
qed

lemma signatureTable_members:
  assumes "sg \<in> set signatureTable"
  obtains (Get) "sg = signatureTable ! 0" | (GetN) "sg = signatureTable ! 1"
    | (GetD) "sg = signatureTable ! 2" | (GetND) "sg = signatureTable ! 3"
    | (GetC) "sg = signatureTable ! 4" | (GetNC) "sg = signatureTable ! 5"
    | (GetDC) "sg = signatureTable ! 6" | (GetNDC) "sg = signatureTable ! 7"
proof -
  have "length signatureTable = 8" by (simp add: signatureTable_def)
  with assms obtain i where "i < 8" "sg = signatureTable ! i"
    by (metis in_set_conv_nth)
  then consider "i = 0" | "i = 1" | "i = 2" | "i = 3" | "i = 4" | "i = 5" | "i = 6" | "i = 7"
    by linarith
  then show thesis
    using \<open>sg = signatureTable ! i\<close> Get GetN GetD GetND GetC GetNC GetDC GetNDC
    by cases blast+
qed

lemmas matched_simps =
  signatureTable_def inspectCallExpr_def decodeDomain_def recordFor_def msgidPosition_def
  pluralPosition_def

lemma inspectCallExpr_matched:
  assumes look: "lookupSignature sel = Some sg"
    and lits: "literalsMet sg args"
    and cnt: "sel = ''GetN'' \<Longrightarrow> countSwitch (args ! 2) = Inr True"
  shows "inspectCallExpr E (SelectorExpr x sel) lparen args s =
           (case decodeDomain E (currentDomain s) sg args of
              None \<Rightarrow> Inl Fatal
            | Some d \<Rightarrow>
                (case callLabel (SelectorExpr x sel) of
                   Inl e \<Rightarrow> Inl e
                 | Inr lbl \<Rightarrow> appendBlock E d (po_block (recordFor sg d lbl lparen args)) s))"
proof -
  from lookupSignature_cases [OF look]
  have mem: "sg \<in> set signatureTable" and nm: "methodName sg = sel" by simp_all
  from mem show ?thesis
  proof (cases rule: signatureTable_members)
    case Get
    with nm have sel: "sel = ''Get''" by (simp add: signatureTable_def)
    from Get lits have len: "0 < length args" and l0: "isStringLit (args ! 0)"
      by (auto simp: signatureTable_def literalsMet_def)
    from l0 obtain v0 where a0: "args ! 0 = BasicLit token_STRING v0"
      by (rule isStringLit_obtain)
    show ?thesis
    proof (cases "decodeDomain E (currentDomain s) sg args")
      case None
      then show ?thesis
        using len a0 
        by (simp add: Get sel matched_simps parseGet_def split: option.splits)
    next
      case (Some d)
      then show ?thesis
        using parseGet_matched [where args = args and E = E and fn = "SelectorExpr x sel" and lparen = lparen and s = s] len a0 
        by (simp add: Get sel matched_simps split: option.splits cong: sum.case_cong)
    qed
  next
    case GetN
    with nm have sel: "sel = ''GetN''" by (simp add: signatureTable_def)
    from GetN lits have len: "\<not> length args < 3" and l0: "isStringLit (args ! 0)" and l1: "isStringLit (args ! 1)"
      by (auto simp: signatureTable_def literalsMet_def)
    from l0 obtain v0 where a0: "args ! 0 = BasicLit token_STRING v0"
      by (rule isStringLit_obtain)
    from l1 obtain v1 where a1: "args ! 1 = BasicLit token_STRING v1"
      by (rule isStringLit_obtain)
    show ?thesis
    proof (cases "decodeDomain E (currentDomain s) sg args")
      case None
      then show ?thesis
        using len a0 a1 cnt
        by (simp add: GetN sel matched_simps parseGetN_def split: option.splits)
    next
      case (Some d)
      then show ?thesis
        using parseGetN_matched [where args = args and E = E and fn = "SelectorExpr x sel" and lparen = lparen and s = s] len a0 a1 cnt
        by (simp add: GetN sel matched_simps split: option.splits cong: sum.case_cong)
    qed
  next
    case GetD
    with nm have sel: "sel = ''GetD''" by (simp add: signatureTable_def)
    from GetD lits have len: "1 < length args" and l0: "isStringLit (args ! 0)" and l1: "isStringLit (args ! 1)"
      by (auto simp: signatureTable_def literalsMet_def)
    from l0 obtain v0 where a0: "args ! 0 = BasicLit token_STRING v0"
      by (rule isStringLit_obtain)
    from l1 obtain v1 where a1: "args ! 1 = BasicLit token_STRING v1"
      by (rule isStringLit_obtain)
    show ?thesis
    proof (cases "decodeDomain E (currentDomain s) sg args")
      case None
      then show ?thesis
        using len a0 a1 
        by (simp add: GetD sel matched_simps parseGetD_def split: option.splits)
    next
      case (Some d)
      then show ?thesis
        using parseGetD_matched [where args = args and E = E and fn = "SelectorExpr x sel" and lparen = lparen and s = s] len a0 a1 
        by (simp add: GetD sel matched_simps split: option.splits cong: sum.case_cong)
    qed
  next
    case GetND
    with nm have sel: "sel = ''GetND''" by (simp add: signatureTable_def)
    from GetND lits have len: "2 < length args" and l0: "isStringLit (args ! 0)" and l1: "isStringLit (args ! 1)" and l2: "isStringLit (args ! 2)"
      by (auto simp: signatureTable_def literalsMet_def)
    from l0 obtain v0 where a0: "args ! 0 = BasicLit token_STRING v0"
      by (rule isStringLit_obtain)
    from l1 obtain v1 where a1: "args ! 1 = BasicLit token_STRING v1"
      by (rule isStringLit_obtain)
    from l2 obtain v2 where a2: "args ! 2 = BasicLit token_STRING v2"
      by (rule isStringLit_obtain)
    show ?thesis
    proof (cases "decodeDomain E (currentDomain s) sg args")
      case None
      then show ?thesis
        using len a0 a1 a2 
        by (simp add: GetND sel matched_simps parseGetND_def split: option.splits)
    next
      case (Some d)
      then show ?thesis
        using parseGetND_matched [where args = args and E = E and fn = "SelectorExpr x sel" and lparen = lparen and s = s] len a0 a1 a2 
        by (simp add: GetND sel matched_simps split: option.splits cong: sum.case_cong)
    qed
  next
    case GetC
    with nm have sel: "sel = ''GetC''" by (simp add: signatureTable_def)
    from GetC lits have len: "1 < length args" and l0: "isStringLit (args ! 0)" and l1: "isStringLit (args ! 1)"
      by (auto simp: signatureTable_def literalsMet_def)
    from l0 obtain v0 where a0: "args ! 0 = BasicLit token_STRING v0"
      by (rule isStringLit_obtain)
    from l1 obtain v1 where a1: "args ! 1 = BasicLit token_STRING v1"
      by (rule isStringLit_obtain)
    show ?thesis
    proof (cases "decodeDomain E (currentDomain s) sg args")
      case None
      then show ?thesis
        using len a0 a1 
        by (simp add: GetC sel matched_simps parseGetC_def split: option.splits)
    next
      case (Some d)
      then show ?thesis
        using parseGetC_matched [where args = args and E = E and fn = "SelectorExpr x sel" and lparen = lparen and s = s] len a0 a1 
        by (simp add: GetC sel matched_simps split: option.splits cong: sum.case_cong)
    qed
  next
    case GetNC
    with nm have sel: "sel = ''GetNC''" by (simp add: signatureTable_def)
    from GetNC lits have len: "3 < length args" and l0: "isStringLit (args ! 0)" and l1: "isStringLit (args ! 1)" and l3: "isStringLit (args ! 3)"
      by (auto simp: signatureTable_def literalsMet_def)
    from l0 obtain v0 where a0: "args ! 0 = BasicLit token_STRING v0"
      by (rule isStringLit_obtain)
    from l1 obtain v1 where a1: "args ! 1 = BasicLit token_STRING v1"
      by (rule isStringLit_obtain)
    from l3 obtain v3 where a3: "args ! 3 = BasicLit token_STRING v3"
      by (rule isStringLit_obtain)
    show ?thesis
    proof (cases "decodeDomain E (currentDomain s) sg args")
      case None
      then show ?thesis
        using len a0 a1 a3 
        by (simp add: GetNC sel matched_simps parseGetNC_def split: option.splits)
    next
      case (Some d)
      then show ?thesis
        using parseGetNC_matched [where args = args and E = E and fn = "SelectorExpr x sel" and lparen = lparen and s = s] len a0 a1 a3 
        by (simp add: GetNC sel matched_simps split: option.splits cong: sum.case_cong)
    qed
  next
    case GetDC
    with nm have sel: "sel = ''GetDC''" by (simp add: signatureTable_def)
    from GetDC lits have len: "2 < length args" and l0: "isStringLit (args ! 0)" and l1: "isStringLit (args ! 1)" and l2: "isStringLit (args ! 2)"
      by (auto simp: signatureTable_def literalsMet_def)
    from l0 obtain v0 where a0: "args ! 0 = BasicLit token_STRING v0"
      by (rule isStringLit_obtain)
    from l1 obtain v1 where a1: "args ! 1 = BasicLit token_STRING v1"
      by (rule isStringLit_obtain)
    from l2 obtain v2 where a2: "args ! 2 = BasicLit token_STRING v2"
      by (rule isStringLit_obtain)
    show ?thesis
    proof (cases "decodeDomain E (currentDomain s) sg args")
      case None
      then show ?thesis
        using len a0 a1 a2 
        by (simp add: GetDC sel matched_simps parseGetDC_def split: option.splits)
    next
      case (Some d)
      then show ?thesis
        using parseGetDC_matched [where args = args and E = E and fn = "SelectorExpr x sel" and lparen = lparen and s = s] len a0 a1 a2 
        by (simp add: GetDC sel matched_simps split: option.splits cong: sum.case_cong)
    qed
  next
    case GetNDC
    with nm have sel: "sel = ''GetNDC''" by (simp add: signatureTable_def)
    from GetNDC lits have len: "4 < length args" and l0: "isStringLit (args ! 0)" and l1: "isStringLit (args ! 1)" and l2: "isStringLit (args ! 2)" and l4: "isStringLit (args ! 4)"
      by (auto simp: signatureTable_def literalsMet_def)
    from l0 obtain v0 where a0: "args ! 0 = BasicLit token_STRING v0"
      by (rule isStringLit_obtain)
    from l1 obtain v1 where a1: "args ! 1 = BasicLit token_STRING v1"
      by (rule isStringLit_obtain)
    from l2 obtain v2 where a2: "args ! 2 = BasicLit token_STRING v2"
      by (rule isStringLit_obtain)
    from l4 obtain v4 where a4: "args ! 4 = BasicLit token_STRING v4"
      by (rule isStringLit_obtain)
    show ?thesis
    proof (cases "decodeDomain E (currentDomain s) sg args")
      case None
      then show ?thesis
        using len a0 a1 a2 a4 
        by (simp add: GetNDC sel matched_simps parseGetNDC_def split: option.splits)
    next
      case (Some d)
      then show ?thesis
        using parseGetNDC_matched [where args = args and E = E and fn = "SelectorExpr x sel" and lparen = lparen and s = s] len a0 a1 a2 a4 
        by (simp add: GetNDC sel matched_simps split: option.splits cong: sum.case_cong)
    qed
  qed
qed

lemma callLabel_not_Ident: "\<not> isIdent x \<Longrightarrow> callLabel (SelectorExpr x sel) = Inl Panic"
  by (cases x) (simp_all add: isIdent_def)

lemma callLabel_Ident: "isIdent x \<Longrightarrow> \<exists>lbl. callLabel (SelectorExpr x sel) = Inr lbl"
  by (cases x) (simp_all add: isIdent_def)

lemma appendBlock_succeeds:
  assumes "domainFiles s d \<noteq> None \<or> \<not> OpenFileFails E (Join E (outputDir s) (d @ ''.po''))"
  shows "\<exists>s'. appendBlock E d txt s = Inr s'"
proof (cases "domainFiles s d")
  case None
  with assms show ?thesis
    by (simp add: appendBlock_def getDomainFile_fresh)
next
  case (Some f)
  then show ?thesis
    by (simp add: appendBlock_def getDomainFile_cached)
qed

lemma appendBlock_fatal:
  assumes "domainFiles s d = None" "OpenFileFails E (Join E (outputDir s) (d @ ''.po''))"
  shows "appendBlock E d txt s = Inl Fatal"
  using assms by (simp add: appendBlock_def getDomainFile_fatal)

lemma appendBlock_not_Panic: "appendBlock E d txt s \<noteq> Inl Panic"
proof (cases "domainFiles s d")
  case None
  then show ?thesis
    by (cases "OpenFileFails E (Join E (outputDir s) (d @ ''.po''))")
      (simp_all add: appendBlock_def getDomainFile_fresh getDomainFile_fatal)
next
  case (Some f)
  then show ?thesis
    by (simp add: appendBlock_def getDomainFile_cached)
qed

lemma lookupSignature_GetN: "lookupSignature ''GetN'' = Some sg \<Longrightarrow> countArgPosition sg = Some 2 \<and> domainSource sg = None"
  by (auto simp: lookupSignature_def signatureTable_def)

lemma countMet_GetN:
  assumes "lookupSignature sel = Some sg" "countMet sg args" "sel = ''GetN''"
  shows "countSwitch (args ! 2) = Inr True"
  using assms lookupSignature_GetN [of sg]
  by (simp add: countMet_def countArgOK_countSwitch)

lemma showNat_17: "showNat 17 = ''17''"
  by code_simp

section \<open>The registry invariant and the frame of an append\<close>

lemma fileWrite_openFiles:
  "f < length (openFiles s) \<Longrightarrow>
     openFiles (fileWrite f b s) =
       (openFiles s)[f := (openFiles s ! f)\<lparr>foffset := foffset (openFiles s ! f) + length b\<rparr>]"
  by (simp add: fileWrite_def Let_def)

lemma fileWrite_fs:
  "f < length (openFiles s) \<Longrightarrow>
     fs (fileWrite f b s) =
       (fs s)(fpath (openFiles s ! f) \<mapsto>
          pwrite (case fs s (fpath (openFiles s ! f)) of Some c \<Rightarrow> c | None \<Rightarrow> [])
            (foffset (openFiles s ! f)) b)"
  by (simp add: fileWrite_def Let_def)

lemma fileWrite_opened:
  "fileWrite (length (openFiles s)) b (opened E d s) =
     s\<lparr>openFiles := openFiles s @ [\<lparr>fpath = catalogPath E (outputDir s) d, foffset = length b\<rparr>],
       fs := (fs s)(catalogPath E (outputDir s) d \<mapsto> b),
       domainFiles := (domainFiles s)(d \<mapsto> length (openFiles s))\<rparr>"
  by (simp add: fileWrite_def opened_def Let_def pwrite_def catalogPath_def)

lemma appendBlock_cached:
  "domainFiles s d = Some f \<Longrightarrow> appendBlock E d txt s = Inr (fileWrite f txt s)"
  by (simp add: appendBlock_def getDomainFile_cached)

lemma appendBlock_fresh:
  assumes "domainFiles s d = None" "\<not> OpenFileFails E (catalogPath E (outputDir s) d)"
  shows "appendBlock E d txt s =
     Inr (s\<lparr>openFiles := openFiles s @
               [\<lparr>fpath = catalogPath E (outputDir s) d, foffset = length (poHeader @ txt)\<rparr>],
             fs := (fs s)(catalogPath E (outputDir s) d \<mapsto> poHeader @ txt),
             domainFiles := (domainFiles s)(d \<mapsto> length (openFiles s))\<rparr>)"
proof -
  have "appendBlock E d txt s =
          Inr (fileWrite (length (openFiles s)) txt
                 (fileWrite (length (openFiles s)) poHeader (opened E d s)))"
    using assms by (simp add: appendBlock_def getDomainFile_fresh catalogPath_def)
  also have "fileWrite (length (openFiles s)) txt
                 (fileWrite (length (openFiles s)) poHeader (opened E d s))
               = fileWrite (length (openFiles s)) (poHeader @ txt) (opened E d s)"
    by (rule fileWrite_fileWrite)
  finally show ?thesis
    by (simp only: fileWrite_opened)
qed

lemma appendBlock_cases:
  assumes "appendBlock E d txt s = Inr s'"
  obtains (cached) f where "domainFiles s d = Some f" "s' = fileWrite f txt s"
    | (fresh) "domainFiles s d = None"
        "s' = s\<lparr>openFiles := openFiles s @
                  [\<lparr>fpath = catalogPath E (outputDir s) d, foffset = length (poHeader @ txt)\<rparr>],
                fs := (fs s)(catalogPath E (outputDir s) d \<mapsto> poHeader @ txt),
                domainFiles := (domainFiles s)(d \<mapsto> length (openFiles s))\<rparr>"
proof (cases "domainFiles s d")
  case None
  show ?thesis
  proof (cases "OpenFileFails E (catalogPath E (outputDir s) d)")
    case True
    with None have "appendBlock E d txt s = Inl Fatal"
      by (simp add: appendBlock_fatal catalogPath_def)
    with assms show ?thesis by simp
  next
    case nofail: False
    have "appendBlock E d txt s =
       Inr (s\<lparr>openFiles := openFiles s @
               [\<lparr>fpath = catalogPath E (outputDir s) d, foffset = length (poHeader @ txt)\<rparr>],
             fs := (fs s)(catalogPath E (outputDir s) d \<mapsto> poHeader @ txt),
             domainFiles := (domainFiles s)(d \<mapsto> length (openFiles s))\<rparr>)"
      using None nofail by (rule appendBlock_fresh)
    with assms None show ?thesis
      by (intro fresh) simp_all
  qed
next
  case (Some f)
  have "appendBlock E d txt s = Inr (fileWrite f txt s)"
    using Some by (rule appendBlock_cached)
  with assms Some show ?thesis
    by (intro cached [of f]) simp_all
qed

lemma registry_ok_fileWrite:
  assumes "registry_ok E s"
  shows "registry_ok E (fileWrite f b s)"
proof (cases "f < length (openFiles s)")
  case True
  have "fpath ((openFiles s)[f := (openFiles s ! f)\<lparr>foffset := n\<rparr>] ! g) = fpath (openFiles s ! g)"
    if "g < length (openFiles s)" for g n
    using that by (cases "g = f") simp_all
  with assms True show ?thesis
    by (simp add: registry_ok_def fileWrite_openFiles)
next
  case False
  with assms show ?thesis by (simp add: fileWrite_def)
qed

lemma registry_ok_appendBlock:
  assumes ok: "registry_ok E s" and app: "appendBlock E d txt s = Inr s'"
  shows "registry_ok E s'"
  using app
proof (cases rule: appendBlock_cases)
  case (cached f)
  with ok show ?thesis by (simp add: registry_ok_fileWrite)
next
  case fresh
  have lt: "g < length (openFiles s)" if "domainFiles s e = Some g" for e g
    using ok that by (simp add: registry_ok_def)
  have inj: "inj_on ((domainFiles s)(d \<mapsto> length (openFiles s))) (insert d (dom (domainFiles s)))"
  proof (rule inj_onI)
    fix a b
    assume a: "a \<in> insert d (dom (domainFiles s))" and b: "b \<in> insert d (dom (domainFiles s))"
      and eq: "((domainFiles s)(d \<mapsto> length (openFiles s))) a = ((domainFiles s)(d \<mapsto> length (openFiles s))) b"
    show "a = b"
    proof (cases "a = d")
      case True
      show ?thesis
      proof (rule ccontr)
        assume "a \<noteq> b"
        with True b eq obtain g where "domainFiles s b = Some g" "g = length (openFiles s)"
          by auto
        with lt [of b g] show False by simp
      qed
    next
      case False
      show ?thesis
      proof (cases "b = d")
        case True
        with False a eq obtain g where "domainFiles s a = Some g" "g = length (openFiles s)"
          by auto
        with lt [of a g] show ?thesis by simp
      next
        case bd: False
        with False a b eq ok show ?thesis
          by (auto simp: registry_ok_def dest: inj_onD)
      qed
    qed
  qed
  have pth: "fpath (openFiles s ! g) = catalogPath E (outputDir s) e"
    if "domainFiles s e = Some g" for e g
    using ok that by (simp add: registry_ok_def)
  have ent: "g < length (openFiles s') \<and> fpath (openFiles s' ! g) = catalogPath E (outputDir s') e"
    if "domainFiles s' e = Some g" for e g
  proof (cases "e = d")
    case True
    with that have "g = length (openFiles s)" by (simp add: fresh)
    with True show ?thesis by (simp add: fresh)
  next
    case False
    with that have "domainFiles s e = Some g" by (simp add: fresh)
    with lt [of e g] pth [of e g] show ?thesis
      by (simp add: fresh nth_append)
  qed
  have "inj_on (domainFiles s') (dom (domainFiles s'))"
    using inj by (simp add: fresh)
  with ent show ?thesis
    unfolding registry_ok_def by blast
qed

lemma runCall_appendBlock: "runCall E c s = appendBlock E (wdomain c) (wtext c) s"
  by (cases c) (simp_all only: runCall.simps wdomain.simps wtext.simps writers_appendBlock)

lemma appendBlock_outputDir:
  "appendBlock E d txt s = Inr s' \<Longrightarrow> outputDir s' = outputDir s"
  by (erule appendBlock_cases) simp_all

lemma appendBlock_frame:
  assumes ok: "registry_ok E s" and app: "appendBlock E d txt s = Inr s'"
  shows "e \<noteq> d \<Longrightarrow> domainFiles s' e = domainFiles s e"
    and "e \<noteq> d \<Longrightarrow> domainFiles s e = Some g \<Longrightarrow> openFiles s' ! g = openFiles s ! g"
    and "p \<noteq> catalogPath E (outputDir s) d \<Longrightarrow> fs s' p = fs s p"
proof -
  have lt: "g < length (openFiles s)" if "domainFiles s e = Some g" for e g
    using ok that by (simp add: registry_ok_def)
  have pth: "fpath (openFiles s ! g) = catalogPath E (outputDir s) e"
    if "domainFiles s e = Some g" for e g
    using ok that by (simp add: registry_ok_def)
  have inj: "inj_on (domainFiles s) (dom (domainFiles s))"
    using ok by (simp add: registry_ok_def)
  show "e \<noteq> d \<Longrightarrow> domainFiles s' e = domainFiles s e"
    using app by (cases rule: appendBlock_cases) simp_all
  show "openFiles s' ! g = openFiles s ! g" if "e \<noteq> d" "domainFiles s e = Some g"
    using app
  proof (cases rule: appendBlock_cases)
    case (cached f)
    have "g \<noteq> f"
    proof
      assume "g = f"
      with that cached have eq: "domainFiles s e = domainFiles s d" by simp
      from inj eq have "e = d"
        by (rule inj_onD) (use that cached in auto)
      with that show False by simp
    qed
    with lt [OF cached(1)] show ?thesis
      by (simp add: cached fileWrite_openFiles)
  next
    case fresh
    with lt [OF that(2)] show ?thesis
      by (simp add: nth_append)
  qed
  show "fs s' p = fs s p" if "p \<noteq> catalogPath E (outputDir s) d"
    using app
  proof (cases rule: appendBlock_cases)
    case (cached f)
    with lt [OF cached(1)] pth [OF cached(1)] that show ?thesis
      by (simp add: fileWrite_fs)
  next
    case fresh
    with that show ?thesis by simp
  qed
qed

lemma contentOf_snoc_same: "contentOf (log @ [(d, txt)]) d = contentOf log d @ txt"
  by (simp add: contentOf_def)

lemma contentOf_snoc_other: "e \<noteq> d \<Longrightarrow> contentOf (log @ [(d, txt)]) e = contentOf log e"
  by (simp add: contentOf_def)

lemma contentOf_absent: "d \<notin> fst ` set log \<Longrightarrow> contentOf log d = poHeader"
proof -
  assume "d \<notin> fst ` set log"
  then have "filter (\<lambda>e. fst e = d) log = []"
    by (auto simp: filter_empty_conv)
  then show ?thesis by (simp add: contentOf_def)
qed

lemma tracked_appendBlock:
  assumes tr: "tracked E s log"
    and inj: "inj_on (catalogPath E (outputDir s)) (insert d (fst ` set log))"
    and app: "appendBlock E d txt s = Inr s'"
  shows "tracked E s' (log @ [(d, txt)])"
proof -
  from tr have ok: "registry_ok E s" and dm: "dom (domainFiles s) = fst ` set log"
    and cont: "\<And>e g. domainFiles s e = Some g \<Longrightarrow>
        fs s (catalogPath E (outputDir s) e) = Some (contentOf log e) \<and>
        foffset (openFiles s ! g) = length (contentOf log e)"
    by (simp_all add: tracked_def)
  have ok': "registry_ok E s'"
    using ok app by (rule registry_ok_appendBlock)
  have out: "outputDir s' = outputDir s"
    using app by (rule appendBlock_outputDir)
  have lt: "g < length (openFiles s)" if "domainFiles s e = Some g" for e g
    using ok that by (simp add: registry_ok_def)
  have pth: "fpath (openFiles s ! g) = catalogPath E (outputDir s) e"
    if "domainFiles s e = Some g" for e g
    using ok that by (simp add: registry_ok_def)
  have other: "fs s' (catalogPath E (outputDir s) e) = Some (contentOf log e) \<and>
      foffset (openFiles s' ! g) = length (contentOf log e)"
    if "e \<noteq> d" "domainFiles s e = Some g" for e g
  proof -
    from that dm have mem: "e \<in> fst ` set log" by (metis domI)
    have "catalogPath E (outputDir s) e \<noteq> catalogPath E (outputDir s) d"
    proof
      assume eq: "catalogPath E (outputDir s) e = catalogPath E (outputDir s) d"
      from inj eq have "e = d"
        by (rule inj_onD) (use mem in simp_all)
      with that show False by simp
    qed
    with appendBlock_frame [OF ok app] that cont [OF that(2)] show ?thesis
      by simp
  qed
  have dm': "dom (domainFiles s') = fst ` set (log @ [(d, txt)])"
    using app dm by (cases rule: appendBlock_cases) auto
  have new: "fs s' (catalogPath E (outputDir s) d) = Some (contentOf log d @ txt) \<and>
      foffset (openFiles s' ! g) = length (contentOf log d @ txt)"
    if "domainFiles s' d = Some g" for g
    using app
  proof (cases rule: appendBlock_cases)
    case (cached f)
    with that have gf: "g = f" by simp
    from cont [OF cached(1)] lt [OF cached(1)] pth [OF cached(1)] show ?thesis
      by (simp add: gf cached fileWrite_fs fileWrite_openFiles pwrite_end)
  next
    case fresh
    with dm have "d \<notin> fst ` set log" by (metis domIff)
    then have "contentOf log d = poHeader" by (rule contentOf_absent)
    moreover from that fresh have "g = length (openFiles s)" by simp
    ultimately show ?thesis by (simp add: fresh)
  qed
  have all: "fs s' (catalogPath E (outputDir s') e) = Some (contentOf (log @ [(d, txt)]) e) \<and>
      foffset (openFiles s' ! g) = length (contentOf (log @ [(d, txt)]) e)"
    if "domainFiles s' e = Some g" for e g
  proof (cases "e = d")
    case True
    with new [of g] that show ?thesis
      by (simp add: out contentOf_snoc_same)
  next
    case False
    with that appendBlock_frame(1) [OF ok app, of e] have "domainFiles s e = Some g" by simp
    from other [OF False this] False show ?thesis
      by (simp add: out contentOf_snoc_other)
  qed
  from ok' dm' all show ?thesis
    unfolding tracked_def by blast
qed

lemma registry_ok_runCalls:
  "registry_ok E s \<Longrightarrow> runCalls E cs s = Inr s' \<Longrightarrow> registry_ok E s'"
proof (induction cs arbitrary: s)
  case Nil
  then show ?case by simp
next
  case (Cons c cs)
  from Cons.prems(2) obtain s1 where c: "runCall E c s = Inr s1" and r: "runCalls E cs s1 = Inr s'"
    by (auto split: sum.splits)
  from c have "appendBlock E (wdomain c) (wtext c) s = Inr s1"
    by (simp add: runCall_appendBlock)
  with Cons.prems(1) have "registry_ok E s1"
    by (rule registry_ok_appendBlock)
  from Cons.IH [OF this r] show ?case .
qed

lemma appendBlock_dom:
  "appendBlock E d txt s = Inr s' \<Longrightarrow> dom (domainFiles s') = insert d (dom (domainFiles s))"
  by (erule appendBlock_cases) auto

lemma runCalls_dom:
  "runCalls E cs s = Inr s' \<Longrightarrow> dom (domainFiles s') = dom (domainFiles s) \<union> wdomain ` set cs"
proof (induction cs arbitrary: s)
  case Nil
  then show ?case by simp
next
  case (Cons c cs)
  from Cons.prems obtain s1 where c: "runCall E c s = Inr s1" and r: "runCalls E cs s1 = Inr s'"
    by (auto split: sum.splits)
  from c have "appendBlock E (wdomain c) (wtext c) s = Inr s1"
    by (simp add: runCall_appendBlock)
  then have "dom (domainFiles s1) = insert (wdomain c) (dom (domainFiles s))"
    by (rule appendBlock_dom)
  with Cons.IH [OF r] show ?case by auto
qed

lemma tracked_runCalls:
  assumes "tracked E s log"
    and "inj_on (catalogPath E (outputDir s)) (fst ` set log \<union> wdomain ` set cs)"
    and "runCalls E cs s = Inr s'"
  shows "tracked E s' (log @ map (\<lambda>c. (wdomain c, wtext c)) cs) \<and> outputDir s' = outputDir s"
  using assms
proof (induction cs arbitrary: s log)
  case Nil
  then show ?case by simp
next
  case (Cons c cs)
  from Cons.prems(3) obtain s1 where c: "runCall E c s = Inr s1" and r: "runCalls E cs s1 = Inr s'"
    by (auto split: sum.splits)
  from c have app: "appendBlock E (wdomain c) (wtext c) s = Inr s1"
    by (simp add: runCall_appendBlock)
  have out: "outputDir s1 = outputDir s"
    using app by (rule appendBlock_outputDir)
  have "inj_on (catalogPath E (outputDir s)) (insert (wdomain c) (fst ` set log))"
    using Cons.prems(2) by (rule inj_on_subset) auto
  with Cons.prems(1) have t1: "tracked E s1 (log @ [(wdomain c, wtext c)])"
    using app by (rule tracked_appendBlock)
  have "inj_on (catalogPath E (outputDir s1))
          (fst ` set (log @ [(wdomain c, wtext c)]) \<union> wdomain ` set cs)"
    unfolding out using Cons.prems(2) by (rule inj_on_subset) auto
  from Cons.IH [OF t1 this r] out show ?case by simp
qed

lemma tracked_initState: "tracked E ((initState disk)\<lparr>outputDir := out\<rparr>) []"
  by (simp add: tracked_def registry_ok_def initState_def)

lemma contentOf_map:
  "contentOf (map (\<lambda>c. (wdomain c, wtext c)) cs) d =
     poHeader @ concat (map wtext (filter (\<lambda>c. wdomain c = d) cs))"
  by (simp add: contentOf_def filter_map comp_def)

section \<open>Call sites that are skipped\<close>

text \<open>
  A selector that is not in the table, and a call that lacks the argument count or a
  string literal of its variant, leave the state as it is. In \<open>parseGetN\<close> the same
  holds for a count argument the type switch rejects.
\<close>

lemma lookupSignature_eval:
  "lookupSignature ''Get'' = Some (signatureTable ! 0)"
  "lookupSignature ''GetN'' = Some (signatureTable ! 1)"
  "lookupSignature ''GetD'' = Some (signatureTable ! 2)"
  "lookupSignature ''GetND'' = Some (signatureTable ! 3)"
  "lookupSignature ''GetC'' = Some (signatureTable ! 4)"
  "lookupSignature ''GetNC'' = Some (signatureTable ! 5)"
  "lookupSignature ''GetDC'' = Some (signatureTable ! 6)"
  "lookupSignature ''GetNDC'' = Some (signatureTable ! 7)"
  by (simp_all add: lookupSignature_def signatureTable_def)

lemma lookupSignature_None:
  assumes "lookupSignature sel = None"
  shows "sel \<notin> {''Get'', ''GetN'', ''GetD'', ''GetND'', ''GetC'', ''GetNC'', ''GetDC'', ''GetNDC''}"
  using assms lookupSignature_eval by auto

lemma inspectCallExpr_unknown:
  assumes "lookupSignature sel = None"
  shows "inspectCallExpr E (SelectorExpr x sel) lparen args s = Inr s"
  using lookupSignature_None [OF assms] by (simp add: inspectCallExpr_def)

lemma inspectCallExpr_not_selector:
  assumes "\<And>x sel. fn \<noteq> SelectorExpr x sel"
  shows "inspectCallExpr E fn lparen args s = Inr s"
  using assms by (cases fn) (simp_all add: inspectCallExpr_def)

lemma parseGet_skips:
  "\<not> (0 < length args \<and> isStringLit (args ! 0)) \<Longrightarrow> parseGet E fn lparen args s = Inr s"
  by (auto simp: parseGet_def isStringLit_def split: node.splits)

lemma parseGetN_skips:
  "\<not> (\<not> length args < 3 \<and> isStringLit (args ! 0) \<and> isStringLit (args ! 1)) \<Longrightarrow>
     parseGetN E fn lparen args s = Inr s"
  by (auto simp: parseGetN_def isStringLit_def split: node.splits)

lemma parseGetD_skips:
  "\<not> (1 < length args \<and> isStringLit (args ! 0) \<and> isStringLit (args ! 1)) \<Longrightarrow>
     parseGetD E fn lparen args s = Inr s"
  by (auto simp: parseGetD_def isStringLit_def split: node.splits)

lemma parseGetND_skips:
  "\<not> (2 < length args \<and> isStringLit (args ! 0) \<and> isStringLit (args ! 1) \<and> isStringLit (args ! 2)) \<Longrightarrow>
     parseGetND E fn lparen args s = Inr s"
  by (auto simp: parseGetND_def isStringLit_def split: node.splits)

lemma parseGetC_skips:
  "\<not> (1 < length args \<and> isStringLit (args ! 0) \<and> isStringLit (args ! 1)) \<Longrightarrow>
     parseGetC E fn lparen args s = Inr s"
  by (auto simp: parseGetC_def isStringLit_def split: node.splits)

lemma parseGetNC_skips:
  "\<not> (3 < length args \<and> isStringLit (args ! 0) \<and> isStringLit (args ! 1) \<and> isStringLit (args ! 3)) \<Longrightarrow>
     parseGetNC E fn lparen args s = Inr s"
  by (auto simp: parseGetNC_def isStringLit_def split: node.splits)

lemma parseGetDC_skips:
  "\<not> (2 < length args \<and> isStringLit (args ! 0) \<and> isStringLit (args ! 1) \<and> isStringLit (args ! 2)) \<Longrightarrow>
     parseGetDC E fn lparen args s = Inr s"
  by (auto simp: parseGetDC_def isStringLit_def split: node.splits)

lemma parseGetNDC_skips:
  "\<not> (4 < length args \<and> isStringLit (args ! 0) \<and> isStringLit (args ! 1) \<and> isStringLit (args ! 2)
        \<and> isStringLit (args ! 4)) \<Longrightarrow>
     parseGetNDC E fn lparen args s = Inr s"
  by (auto simp: parseGetNDC_def isStringLit_def split: node.splits)

lemmas parse_skips =
  parseGet_skips parseGetN_skips parseGetD_skips parseGetND_skips
  parseGetC_skips parseGetNC_skips parseGetDC_skips parseGetNDC_skips

lemma inspectCallExpr_skips:
  assumes look: "lookupSignature sel = Some sg" and lits: "\<not> literalsMet sg args"
  shows "inspectCallExpr E (SelectorExpr x sel) lparen args s = Inr s"
proof -
  from lookupSignature_cases [OF look]
  have mem: "sg \<in> set signatureTable" and nm: "methodName sg = sel" by simp_all
  from mem show ?thesis
  proof (cases rule: signatureTable_members)
    case Get
    with nm lits show ?thesis
      by (auto simp: signatureTable_def literalsMet_def inspectCallExpr_def Suc_le_eq intro!: parse_skips)
  next
    case GetN
    with nm lits show ?thesis
      by (auto simp: signatureTable_def literalsMet_def inspectCallExpr_def Suc_le_eq intro!: parse_skips)
  next
    case GetD
    with nm lits show ?thesis
      by (auto simp: signatureTable_def literalsMet_def inspectCallExpr_def Suc_le_eq intro!: parse_skips)
  next
    case GetND
    with nm lits show ?thesis
      by (auto simp: signatureTable_def literalsMet_def inspectCallExpr_def Suc_le_eq intro!: parse_skips)
  next
    case GetC
    with nm lits show ?thesis
      by (auto simp: signatureTable_def literalsMet_def inspectCallExpr_def Suc_le_eq intro!: parse_skips)
  next
    case GetNC
    with nm lits show ?thesis
      by (auto simp: signatureTable_def literalsMet_def inspectCallExpr_def Suc_le_eq intro!: parse_skips)
  next
    case GetDC
    with nm lits show ?thesis
      by (auto simp: signatureTable_def literalsMet_def inspectCallExpr_def Suc_le_eq intro!: parse_skips)
  next
    case GetNDC
    with nm lits show ?thesis
      by (auto simp: signatureTable_def literalsMet_def inspectCallExpr_def Suc_le_eq intro!: parse_skips)
  qed
qed

lemma parseGetN_count:
  assumes "\<not> length args < 3" "isStringLit (args ! 0)" "isStringLit (args ! 1)"
  shows "countSwitch (args ! 2) = Inr False \<Longrightarrow> parseGetN E fn lparen args s = Inr s"
    and "countSwitch (args ! 2) = Inl e \<Longrightarrow> parseGetN E fn lparen args s = Inl e"
  using assms by (auto simp: parseGetN_def isStringLit_def split: node.splits)

section \<open>The invariant along the traversal\<close>

lemma inspectCallExpr_effect:
  assumes "inspectCallExpr E fn lparen args s = Inr s'"
  shows "s' = s \<or> (\<exists>d txt. appendBlock E d txt s = Inr s')"
proof (cases "\<exists>x sel. fn = SelectorExpr x sel")
  case False
  then have "inspectCallExpr E fn lparen args s = Inr s"
    by (intro inspectCallExpr_not_selector) blast
  with assms show ?thesis by simp
next
  case True
  then obtain x sel where fn: "fn = SelectorExpr x sel" by blast
  show ?thesis
  proof (cases "lookupSignature sel")
    case None
    with assms fn show ?thesis by (simp add: inspectCallExpr_unknown)
  next
    case (Some sg)
    show ?thesis
    proof (cases "literalsMet sg args")
      case False
      with Some assms fn show ?thesis by (simp add: inspectCallExpr_skips)
    next
      case True
      have m: "inspectCallExpr E (SelectorExpr x sel) lparen args s =
           (case decodeDomain E (currentDomain s) sg args of
              None \<Rightarrow> Inl Fatal
            | Some d \<Rightarrow>
                (case callLabel (SelectorExpr x sel) of
                   Inl e \<Rightarrow> Inl e
                 | Inr lbl \<Rightarrow> appendBlock E d (po_block (recordFor sg d lbl lparen args)) s))"
        if "sel = ''GetN'' \<Longrightarrow> countSwitch (args ! 2) = Inr True"
        using Some True that by (rule inspectCallExpr_matched)
      show ?thesis
      proof (cases "sel = ''GetN'' \<and> countSwitch (args ! 2) \<noteq> Inr True")
        case False
        with m assms fn show ?thesis
          by (auto split: option.splits sum.splits)
      next
        case bad: True
        with Some have sg: "sg = signatureTable ! 1"
          by (simp add: lookupSignature_eval)
        from True have lits: "\<not> length args < 3" "isStringLit (args ! 0)" "isStringLit (args ! 1)"
          by (auto simp: sg signatureTable_def literalsMet_def)
        from bad have sel: "sel = ''GetN''" by simp
        show ?thesis
        proof (cases "countSwitch (args ! 2)")
          case (Inl e)
          from parseGetN_count(2) [OF lits Inl] assms fn sel show ?thesis
            by (simp add: inspectCallExpr_def)
        next
          case (Inr b)
          with bad have "countSwitch (args ! 2) = Inr False" by simp
          from parseGetN_count(1) [OF lits this] assms fn sel show ?thesis
            by (simp add: inspectCallExpr_def)
        qed
      qed
    qed
  qed
qed

lemma inspectCallExpr_preserves:
  assumes step: "\<forall>d blk t t'. P t \<longrightarrow> appendBlock E d blk t = Inr t' \<longrightarrow> P t'"
    and "P s" and "inspectCallExpr E fn lparen args s = Inr s'"
  shows "P s'"
  using inspectCallExpr_effect [OF assms(3)] assms(2) step by blast

lemma inspect_preserves:
  assumes step: "\<forall>d blk t t'. P t \<longrightarrow> appendBlock E d blk t = Inr t' \<longrightarrow> P t'"
  shows "P s \<Longrightarrow> inspectNode E n s = Inr s' \<Longrightarrow> P s'"
    and "P s \<Longrightarrow> inspectList E ns s = Inr s' \<Longrightarrow> P s'"
  using step
proof (induction E n s and E ns s arbitrary: s' and s' rule: inspectNode_inspectList.induct)
  case (1 E fn lparen args s)
  from "1.prems"(2) obtain s1 s2 where
    a: "inspectCallExpr E fn lparen args s = Inr s1" and b: "inspectNode E fn s1 = Inr s2"
    and c: "inspectList E args s2 = Inr s'"
    by (auto split: sum.splits)
  from "1.prems"(3) "1.prems"(1) a have "P s1" by (rule inspectCallExpr_preserves)
  from "1.IH"(1) [OF a this b "1.prems"(3)] have "P s2" .
  from "1.IH"(2) [OF a b this c "1.prems"(3)] show ?case .
next
  case (2 E x sel s)
  then show ?case by simp
next
  case (3 E ns s)
  then show ?case by simp
next
  case (4 E k v s)
  then show ?case by simp
next
  case (5 E name ob s)
  then show ?case by simp
next
  case (6 E s)
  then show ?case by simp
next
  case (7 E n ns s)
  from "7.prems"(2) obtain s1 where a: "inspectNode E n s = Inr s1" and b: "inspectList E ns s1 = Inr s'"
    by (auto split: sum.splits)
  from "7.IH"(1) [OF "7.prems"(1) a "7.prems"(3)] have "P s1" .
  from "7.IH"(2) [OF a this b "7.prems"(3)] show ?case .
qed

lemma parseFile_preserves:
  assumes step: "\<forall>d blk t t'. P t \<longrightarrow> appendBlock E d blk t = Inr t' \<longrightarrow> P t'"
    and cf: "\<forall>t f. P t \<longrightarrow> P (t\<lparr>currentFile := f\<rparr>)"
    and "P s" and "parseFile E fileName s = Inr s'"
  shows "P s'"
proof -
  from assms(4) obtain nd where nd: "inspectNode E nd (s\<lparr>currentFile := fileName\<rparr>) = Inr s'"
    by (auto simp: parseFile_def Let_def split: option.splits)
  from cf assms(3) have "P (s\<lparr>currentFile := fileName\<rparr>)" by blast
  from inspect_preserves(1) [OF step this nd] show ?thesis .
qed

lemma parseFiles_preserves:
  assumes step: "\<forall>d blk t t'. P t \<longrightarrow> appendBlock E d blk t = Inr t' \<longrightarrow> P t'"
    and cf: "\<forall>t f. P t \<longrightarrow> P (t\<lparr>currentFile := f\<rparr>)"
  shows "P s \<Longrightarrow> parseFiles E fns s = Inr s' \<Longrightarrow> P s'"
proof (induction fns arbitrary: s)
  case Nil
  then show ?case by simp
next
  case (Cons fn fns)
  from Cons.prems(2) obtain s1 where a: "parseFile E fn s = Inr s1" and b: "parseFiles E fns s1 = Inr s'"
    by (auto split: sum.splits)
  from step cf Cons.prems(1) a have "P s1" by (rule parseFile_preserves)
  from Cons.IH [OF this b] show ?case .
qed

lemma parsePkgs_preserves:
  assumes step: "\<forall>d blk t t'. P t \<longrightarrow> appendBlock E d blk t = Inr t' \<longrightarrow> P t'"
    and cf: "\<forall>t f. P t \<longrightarrow> P (t\<lparr>currentFile := f\<rparr>)"
  shows "P s \<Longrightarrow> parsePkgs E pkgs s = Inr s' \<Longrightarrow> P s'"
proof (induction pkgs arbitrary: s)
  case Nil
  then show ?case by simp
next
  case (Cons pkg pkgs)
  from Cons.prems(2) obtain s1 where a: "parseFiles E pkg s = Inr s1" and b: "parsePkgs E pkgs s1 = Inr s'"
    by (auto split: sum.splits)
  from parseFiles_preserves [OF step cf Cons.prems(1) a] have "P s1" .
  from Cons.IH [OF this b] show ?case .
qed

lemma main_preserves:
  assumes step: "\<forall>d blk t t'. P t \<longrightarrow> appendBlock E d blk t = Inr t' \<longrightarrow> P t'"
    and cf: "\<forall>t f. P t \<longrightarrow> P (t\<lparr>currentFile := f\<rparr>)"
    and init: "\<forall>out. P ((initState disk)\<lparr>outputDir := out\<rparr>)"
    and run: "main E args disk = Inr s'"
  shows "P s'"
proof -
  have "(initState disk)\<lparr>outputDir := outputDir (initState disk)\<rparr> = initState disk"
    by simp
  with init have i0: "P (initState disk)"
    by metis
  from run consider
      (dir) s where "s = initState disk \<or> (\<exists>out. s = (initState disk)\<lparr>outputDir := out\<rparr>)"
        "parseDir E (args ! 1) s = Inr s'"
    | (single) s where "s = initState disk \<or> (\<exists>out. s = (initState disk)\<lparr>outputDir := out\<rparr>)"
        "parseFile E (args ! 1) s = Inr s'"
    by (auto simp: main_def Let_def split: if_splits option.splits)
  then show ?thesis
  proof cases
    case dir
    from dir(1) i0 init have s: "P s" by auto
    from dir(2) obtain pkgs where "parsePkgs E pkgs s = Inr s'"
      by (auto simp: parseDir_def split: option.splits)
    from parsePkgs_preserves [OF step cf s this] show ?thesis .
  next
    case single
    from single(1) i0 init have s: "P s" by auto
    from parseFile_preserves [OF step cf s single(2)] show ?thesis .
  qed
qed

lemma registry_ok_main:
  assumes "main E args disk = Inr s'"
  shows "registry_ok E s'"
proof (rule main_preserves [OF _ _ _ assms])
  show "\<forall>d blk t t'. registry_ok E t \<longrightarrow> appendBlock E d blk t = Inr t' \<longrightarrow> registry_ok E t'"
    using registry_ok_appendBlock by blast
  show "\<forall>t f. registry_ok E t \<longrightarrow> registry_ok E (t\<lparr>currentFile := f\<rparr>)"
    by (simp add: registry_ok_def)
  show "\<forall>out. registry_ok E ((initState disk)\<lparr>outputDir := out\<rparr>)"
    by (simp add: registry_ok_def initState_def)
qed

subsection \<open>The header at the top of every catalog file\<close>

text \<open>
  A write through a registered stream lands at or after the end of the header, and a file
  is truncated only by the open that writes the header. So \<open>headed\<close> holds along
  every run, whatever paths the domains have; when the paths of the registered domains are
  distinct the run is \<open>tracked\<close> as well.
\<close>

lemma runCalls_outputDir:
  "runCalls E cs s = Inr s' \<Longrightarrow> outputDir s' = outputDir s"
proof (induction cs arbitrary: s)
  case Nil
  then show ?case by simp
next
  case (Cons c cs)
  from Cons.prems obtain s1 where c: "runCall E c s = Inr s1" and r: "runCalls E cs s1 = Inr s'"
    by (auto split: sum.splits)
  from c have "appendBlock E (wdomain c) (wtext c) s = Inr s1"
    by (simp add: runCall_appendBlock)
  then have "outputDir s1 = outputDir s"
    by (rule appendBlock_outputDir)
  with Cons.IH [OF r] show ?case by simp
qed

lemma pwrite_prefix:
  assumes "length h \<le> off" and "take (length h) c = h"
  shows "take (length h) (pwrite c off b) = h"
proof -
  have "length (take (length h) c) = length h"
    using assms(2) by simp
  then have le: "length h \<le> length c"
    by simp
  have "take (length h) (pwrite c off b) =
      take (length h) (take off (c @ replicate (off - length c) (CHR 0x00)))"
    using assms(1) by (simp add: pwrite_def)
  also have "\<dots> = take (length h) (c @ replicate (off - length c) (CHR 0x00))"
    using assms(1) by (simp add: min_def)
  also have "\<dots> = take (length h) c"
    using le by simp
  finally show ?thesis
    using assms(2) by simp
qed

lemma contentOf_length: "length poHeader \<le> length (contentOf log d)"
  by (simp add: contentOf_def)

lemma tracked_headed: "tracked E s log \<Longrightarrow> headed E s log"
  by (auto simp: tracked_def headed_def contentOf_def)

lemma headed_initState: "headed E ((initState disk)\<lparr>outputDir := out\<rparr>) []"
  by (rule tracked_headed) (rule tracked_initState)

lemma headed_appendBlock:
  assumes hd: "headed E s log" and app: "appendBlock E d blk s = Inr s'"
  shows "headed E s' (log @ [(d, blk)])"
proof -
  from hd have ok: "registry_ok E s" and dm: "dom (domainFiles s) = fst ` set log"
    and off: "\<And>e g. domainFiles s e = Some g \<Longrightarrow>
        foffset (openFiles s ! g) = length (contentOf log e)"
    and pre: "\<And>e g. domainFiles s e = Some g \<Longrightarrow>
        \<exists>c. fs s (catalogPath E (outputDir s) e) = Some c \<and> take (length poHeader) c = poHeader"
    by (simp_all add: headed_def)
  have ok': "registry_ok E s'"
    using ok app by (rule registry_ok_appendBlock)
  have out: "outputDir s' = outputDir s"
    using app by (rule appendBlock_outputDir)
  have lt: "g < length (openFiles s)" if "domainFiles s e = Some g" for e g
    using ok that by (simp add: registry_ok_def)
  have pth: "fpath (openFiles s ! g) = catalogPath E (outputDir s) e"
    if "domainFiles s e = Some g" for e g
    using ok that by (simp add: registry_ok_def)
  have dm': "dom (domainFiles s') = fst ` set (log @ [(d, blk)])"
    using appendBlock_dom [OF app] dm by simp
  have ent: "foffset (openFiles s' ! g) = length (contentOf (log @ [(d, blk)]) e) \<and>
      (\<exists>c. fs s' (catalogPath E (outputDir s') e) = Some c \<and> take (length poHeader) c = poHeader)"
    if reg: "domainFiles s' e = Some g" for e g
    using app
  proof (cases rule: appendBlock_cases)
    case (cached f)
    from reg cached have rege: "domainFiles s e = Some g" by simp
    from pre [OF cached(1)] obtain c where c: "fs s (catalogPath E (outputDir s) d) = Some c"
      and cp: "take (length poHeader) c = poHeader" by blast
    have offd: "foffset (openFiles s ! f) = length (contentOf log d)"
      using cached(1) by (rule off)
    have fsn: "fs s' = (fs s)(catalogPath E (outputDir s) d \<mapsto>
        pwrite c (length (contentOf log d)) blk)"
      using lt [OF cached(1)] pth [OF cached(1)] c offd
      by (simp add: cached fileWrite_fs)
    have newpre: "take (length poHeader) (pwrite c (length (contentOf log d)) blk) = poHeader"
      using contentOf_length cp by (rule pwrite_prefix)
    have filepart: "\<exists>c. fs s' (catalogPath E (outputDir s') e) = Some c \<and>
        take (length poHeader) c = poHeader"
    proof (cases "catalogPath E (outputDir s) e = catalogPath E (outputDir s) d")
      case True
      with newpre show ?thesis by (simp add: out fsn)
    next
      case False
      with pre [OF rege] show ?thesis by (simp add: out fsn)
    qed
    have offpart: "foffset (openFiles s' ! g) = length (contentOf (log @ [(d, blk)]) e)"
    proof (cases "e = d")
      case True
      with rege cached have "g = f" by simp
      with True offd lt [OF cached(1)] show ?thesis
        by (simp add: cached fileWrite_openFiles contentOf_snoc_same)
    next
      case False
      from appendBlock_frame(2) [OF ok app False rege] off [OF rege] False show ?thesis
        by (simp add: contentOf_snoc_other)
    qed
    from offpart filepart show ?thesis by blast
  next
    case fresh
    from fresh(1) dm have "d \<notin> fst ` set log" by (metis domIff)
    then have cd: "contentOf log d = poHeader" by (rule contentOf_absent)
    show ?thesis
    proof (cases "e = d")
      case True
      with reg fresh have "g = length (openFiles s)" by simp
      with True cd show ?thesis
        by (simp add: fresh contentOf_snoc_same)
    next
      case False
      with reg fresh have rege: "domainFiles s e = Some g" by simp
      have "foffset (openFiles s' ! g) = length (contentOf (log @ [(d, blk)]) e)"
        using lt [OF rege] off [OF rege] False
        by (simp add: fresh nth_append contentOf_snoc_other)
      moreover have "\<exists>c. fs s' (catalogPath E (outputDir s') e) = Some c \<and>
          take (length poHeader) c = poHeader"
      proof (cases "catalogPath E (outputDir s) e = catalogPath E (outputDir s) d")
        case True
        then show ?thesis by (simp add: fresh)
      next
        case False
        with pre [OF rege] show ?thesis by (simp add: fresh)
      qed
      ultimately show ?thesis by blast
    qed
  qed
  from ok' dm' ent show ?thesis
    unfolding headed_def by blast
qed

lemma headed_runCalls:
  "headed E s log \<Longrightarrow> runCalls E cs s = Inr s' \<Longrightarrow>
     headed E s' (log @ map (\<lambda>c. (wdomain c, wtext c)) cs)"
proof (induction cs arbitrary: s log)
  case Nil
  then show ?case by simp
next
  case (Cons c cs)
  from Cons.prems(2) obtain s1 where c: "runCall E c s = Inr s1" and r: "runCalls E cs s1 = Inr s'"
    by (auto split: sum.splits)
  from c have "appendBlock E (wdomain c) (wtext c) s = Inr s1"
    by (simp add: runCall_appendBlock)
  with Cons.prems(1) have "headed E s1 (log @ [(wdomain c, wtext c)])"
    by (rule headed_appendBlock)
  from Cons.IH [OF this r] show ?case by simp
qed

lemma headed_currentFile: "headed E (t\<lparr>currentFile := f\<rparr>) log = headed E t log"
  by (simp add: headed_def registry_ok_def)

lemma tracked_currentFile: "tracked E (t\<lparr>currentFile := f\<rparr>) log = tracked E t log"
  by (simp add: tracked_def registry_ok_def)

lemma main_headed:
  assumes run: "main E args disk = Inr s'"
  shows "\<exists>log. headed E s' log \<and>
     (inj_on (catalogPath E (outputDir s')) (fst ` set log) \<longrightarrow> tracked E s' log)"
proof -
  define P where "P t \<longleftrightarrow> (\<exists>log. headed E t log \<and>
     (inj_on (catalogPath E (outputDir t)) (fst ` set log) \<longrightarrow> tracked E t log))" for t
  have step: "P t'" if "P t" "appendBlock E d blk t = Inr t'" for d blk t t'
  proof -
    from that(1) obtain log where h: "headed E t log"
      and tr: "inj_on (catalogPath E (outputDir t)) (fst ` set log) \<Longrightarrow> tracked E t log"
      by (auto simp: P_def)
    have out: "outputDir t' = outputDir t"
      using that(2) by (rule appendBlock_outputDir)
    have h': "headed E t' (log @ [(d, blk)])"
      using h that(2) by (rule headed_appendBlock)
    have "tracked E t' (log @ [(d, blk)])"
      if i: "inj_on (catalogPath E (outputDir t')) (fst ` set (log @ [(d, blk)]))"
    proof -
      from i have i1: "inj_on (catalogPath E (outputDir t)) (insert d (fst ` set log))"
        by (simp add: out)
      then have "inj_on (catalogPath E (outputDir t)) (fst ` set log)"
        by (rule inj_on_subset) auto
      then have "tracked E t log" by (rule tr)
      then show ?thesis
        using i1 \<open>appendBlock E d blk t = Inr t'\<close> by (rule tracked_appendBlock)
    qed
    with h' show ?thesis
      unfolding P_def by blast
  qed
  have "P s'"
  proof (rule main_preserves [OF _ _ _ run])
    show "\<forall>d blk t t'. P t \<longrightarrow> appendBlock E d blk t = Inr t' \<longrightarrow> P t'"
      using step by blast
    show "\<forall>t f. P t \<longrightarrow> P (t\<lparr>currentFile := f\<rparr>)"
      by (simp add: P_def tracked_currentFile headed_currentFile)
    show "\<forall>out. P ((initState disk)\<lparr>outputDir := out\<rparr>)"
      unfolding P_def using headed_initState tracked_initState
      by (metis empty_set image_empty inj_on_empty)
  qed
  then show ?thesis by (simp add: P_def)
qed

section \<open>Runs of the sample environment\<close>

lemma sum_case_same: "(case x of Inl e \<Rightarrow> Inl e | Inr s \<Rightarrow> Inr s) = x"
  by (cases x) simp_all

lemma inspectNode_plain_call:
  "inspectNode E (CallExpr (SelectorExpr (Ident recv ob) sel) lparen [BasicLit k v]) s =
     inspectCallExpr E (SelectorExpr (Ident recv ob) sel) lparen [BasicLit k v] s"
  by (simp add: sum_case_same cong: sum.case_cong)

lemma parseFile_one_Get:
  assumes "ParseFile E fileName =
      Some (OtherNode [CallExpr (SelectorExpr (Ident recv ob) ''Get'') lparen [BasicLit token_STRING v]])"
  shows "parseFile E fileName s =
     appendBlock E (currentDomain s)
       (po_block \<lparr>rec_domain = currentDomain s, rec_msgid = v, rec_msgidPlural = None,
          rec_context = None, rec_location = lparen, rec_callLabel = recv @ ''.Get''\<rparr>)
       (s\<lparr>currentFile := fileName\<rparr>)"
proof -
  have "parseGet E (SelectorExpr (Ident recv ob) ''Get'') lparen [BasicLit token_STRING v] t =
     appendBlock E (currentDomain t)
       (po_block \<lparr>rec_domain = currentDomain t, rec_msgid = v, rec_msgidPlural = None,
          rec_context = None, rec_location = lparen, rec_callLabel = recv @ ''.Get''\<rparr>) t" for t
    using parseGet_matched [of "[BasicLit token_STRING v]" v E "SelectorExpr (Ident recv ob) ''Get''" lparen t]
    by simp
  then show ?thesis
    using assms
    by (simp add: parseFile_def Let_def inspectNode_plain_call inspectCallExpr_def sum_case_same
          cong: sum.case_cong)
qed

lemma pwrite_end_append: "pwrite (a @ b) (length a + length b) c = a @ b @ c"
  using pwrite_end [of "a @ b" c] by simp

lemma catalogOf_fresh:
  assumes "domainFiles s d = None" "\<not> OpenFileFails E (catalogPath E (outputDir s) d)"
  shows "catalogOf (appendBlock E d blk s) (catalogPath E (outputDir s) d) = Some (poHeader @ blk)"
  using appendBlock_fresh [OF assms, of blk] by (simp add: catalogOf_def)

lemma two_appends:
  assumes "domainFiles s d = None" "\<not> OpenFileFails E (catalogPath E (outputDir s) d)"
  shows "catalogOf
           (case appendBlock E d a (s\<lparr>currentFile := f1\<rparr>) of
              Inl e \<Rightarrow> Inl e
            | Inr s1 \<Rightarrow> appendBlock E d b (s1\<lparr>currentFile := f2\<rparr>))
           (catalogPath E (outputDir s) d)
         = Some (poHeader @ a @ b)"
proof -
  have 1: "domainFiles (s\<lparr>currentFile := f1\<rparr>) d = None"
    "\<not> OpenFileFails E (catalogPath E (outputDir (s\<lparr>currentFile := f1\<rparr>)) d)"
    using assms by simp_all
  show ?thesis
    unfolding appendBlock_fresh [OF 1]
    by (simp add: catalogOf_def appendBlock_cached fileWrite_fs pwrite_end_append)
qed

lemma two_file_run:
  assumes "ParseDir E dir = Some [[f1, f2]]" and "Stat E dir = Some True"
    and "ParseFile E f1 =
      Some (OtherNode [CallExpr (SelectorExpr (Ident r1 o1) ''Get'') l1 [BasicLit token_STRING v1]])"
    and "ParseFile E f2 =
      Some (OtherNode [CallExpr (SelectorExpr (Ident r2 o2) ''Get'') l2 [BasicLit token_STRING v2]])"
    and "\<not> OpenFileFails E (catalogPath E [] ''default'')"
  shows "catalogOf (main E [prog, dir] disk) (catalogPath E [] ''default'') =
     Some (poHeader @
       po_block \<lparr>rec_domain = ''default'', rec_msgid = v1, rec_msgidPlural = None,
          rec_context = None, rec_location = l1, rec_callLabel = r1 @ ''.Get''\<rparr> @
       po_block \<lparr>rec_domain = ''default'', rec_msgid = v2, rec_msgidPlural = None,
          rec_context = None, rec_location = l2, rec_callLabel = r2 @ ''.Get''\<rparr>)"
proof -
  have cd: "currentDomain s1 = ''default''"
    if "appendBlock E ''default'' blk ((initState disk)\<lparr>currentFile := f1\<rparr>) = Inr s1" for blk s1
    using appendBlock_currentDomain [OF that] by (simp add: initState_def)
  have "main E [prog, dir] disk =
      (case parseFile E f1 (initState disk) of
         Inl e \<Rightarrow> Inl e
       | Inr s1 \<Rightarrow> parseFile E f2 s1)"
    using assms(1,2)
    by (simp add: main_def Let_def parseDir_def sum_case_same cong: sum.case_cong)
  also have "\<dots> =
      (case appendBlock E ''default''
              (po_block \<lparr>rec_domain = ''default'', rec_msgid = v1, rec_msgidPlural = None,
                 rec_context = None, rec_location = l1, rec_callLabel = r1 @ ''.Get''\<rparr>)
              ((initState disk)\<lparr>currentFile := f1\<rparr>) of
         Inl e \<Rightarrow> Inl e
       | Inr s1 \<Rightarrow>
           appendBlock E ''default''
              (po_block \<lparr>rec_domain = ''default'', rec_msgid = v2, rec_msgidPlural = None,
                 rec_context = None, rec_location = l2, rec_callLabel = r2 @ ''.Get''\<rparr>)
              (s1\<lparr>currentFile := f2\<rparr>))"
  proof (cases "appendBlock E ''default''
              (po_block \<lparr>rec_domain = ''default'', rec_msgid = v1, rec_msgidPlural = None,
                 rec_context = None, rec_location = l1, rec_callLabel = r1 @ ''.Get''\<rparr>)
              ((initState disk)\<lparr>currentFile := f1\<rparr>)")
    case (Inl e)
    then show ?thesis
      unfolding parseFile_one_Get [OF assms(3)] by (simp add: initState_def)
  next
    case (Inr s1)
    from cd [OF Inr] Inr show ?thesis
      unfolding parseFile_one_Get [OF assms(3)] parseFile_one_Get [OF assms(4)]
      by (simp add: initState_def)
  qed
  finally show ?thesis
    using two_appends [where s = "initState disk" and d = "''default''" and E = E
        and ?f1.0 = f1 and ?f2.0 = f2] assms(5)
    by (simp add: initState_def)
qed

lemma sampleEnv_simps:
  "ParseDir (sampleEnv order) ''pkg'' = Some order"
  "Stat (sampleEnv order) ''pkg'' = Some True"
  "ParseFile (sampleEnv order) = sampleParseFile"
  "OpenFileFails (sampleEnv order) p = False"
  "catalogPath (sampleEnv order) [] ''default'' = ''default.po''"
  by (simp_all add: sampleEnv_def exampleEnv_def catalogPath_def plainJoin_def)

lemma sampleParseFile_simps:
  "sampleParseFile ''pkg/a.go'' =
     Some (OtherNode [CallExpr (SelectorExpr (Ident ''po'' None) ''Get'')
        \<lparr>Filename = ''pkg/a.go'', Line = 3\<rparr> [BasicLit token_STRING (quoted ''alpha'')]])"
  "sampleParseFile ''pkg/b.go'' =
     Some (OtherNode [CallExpr (SelectorExpr (Ident ''po'' None) ''Get'')
        \<lparr>Filename = ''pkg/b.go'', Line = 3\<rparr> [BasicLit token_STRING (quoted ''beta'')]])"
  by (simp_all add: sampleParseFile_def sampleCall_def strLit_def)

lemma showNat_3: "showNat 3 = ''3''"
  by code_simp

lemma plainUnquote_app: "plainUnquote (quoted ''app'') = Some ''app''"
  by (simp add: plainUnquote_def quoted_def)

lemma plainUnquote_open: \<open>plainUnquote ''"app'' = None\<close>
  by (simp add: plainUnquote_def)

lemma exampleEnv_simps:
  "Unquote exampleEnv = plainUnquote"
  "OpenFileFails exampleEnv p = False"
  "catalogPath exampleEnv [] d = d @ ''.po''"
  by (simp_all add: exampleEnv_def catalogPath_def plainJoin_def)

lemma initState_simps:
  "domainFiles (initState disk) d = None"
  "outputDir (initState disk) = []"
  "currentDomain (initState disk) = ''default''"
  "fs (initState disk) = disk"
  by (simp_all add: initState_def)

lemma showNat_12: "showNat 12 = ''12''"
  by code_simp

lemma runCalls_total:
  assumes "\<And>p. \<not> OpenFileFails E p"
  shows "\<exists>s'. runCalls E cs s = Inr s'"
proof (induction cs arbitrary: s)
  case Nil
  show ?case by simp
next
  case (Cons c cs)
  from appendBlock_succeeds [of s "wdomain c" E "wtext c"] assms
  obtain s1 where "runCall E c s = Inr s1"
    by (auto simp: runCall_appendBlock)
  with Cons [of s1] show ?case by simp
qed

lemma sig_GetD:
  "lookupSignature ''GetD'' = Some (signatureTable ! 2)"
  "domainSource (signatureTable ! 2) = Some 0"
  "literalsMet (signatureTable ! 2) [strLit a, strLit b]"
  "countMet (signatureTable ! 2) args"
  by (simp_all add: lookupSignature_eval signatureTable_def literalsMet_def countMet_def
        isStringLit_def strLit_def)

lemma sig_GetD_sample:
  "literalsMet (signatureTable ! 2) [strLit ''app'', strLit ''save'']"
  by (rule sig_GetD(3))

lemma sample_GetD_runs:
  "\<exists>s'. inspectCallExpr exampleEnv (SelectorExpr (Ident ''po'' None) ''GetD'') lparen
        [strLit ''app'', strLit b] (initState disk) = Inr s'"
proof -
  have "inspectCallExpr exampleEnv (SelectorExpr (Ident ''po'' None) ''GetD'') lparen
        [strLit ''app'', strLit b] (initState disk) =
      appendBlock exampleEnv ''app''
        (po_block \<lparr>rec_domain = ''app'', rec_msgid = quoted b, rec_msgidPlural = None,
           rec_context = None, rec_location = lparen, rec_callLabel = ''po.GetD''\<rparr>)
        (initState disk)"
    using parseGetD_matched [where args = "[strLit ''app'', strLit b]" and E = exampleEnv
        and d = "''app''" and fn = "SelectorExpr (Ident ''po'' None) ''GetD''" and lparen = lparen
        and s = "initState disk"]
    by (simp add: inspectCallExpr_def strLit_def exampleEnv_simps plainUnquote_app)
  then show ?thesis
    using appendBlock_succeeds [of "initState disk" "''app''" exampleEnv]
    by (simp add: exampleEnv_simps)
qed

lemma aliasEnv_simps:
  "Unquote aliasEnv = plainUnquote"
  "OpenFileFails aliasEnv p = False"
  "catalogPath aliasEnv [] ''./app'' = ''app.po''"
  "catalogPath aliasEnv [] ''app'' = ''app.po''"
  by (simp_all add: aliasEnv_def exampleEnv_def catalogPath_def plainJoin_def dotJoin_def)

lemma plainUnquote_dot_app: "plainUnquote (quoted ''./app'') = Some ''./app''"
  by (simp add: plainUnquote_def quoted_def)

lemma showNat_4: "showNat 4 = ''4''"
  by code_simp

section \<open>The claims of the specification\<close>

subsection \<open>C1: the order of the files of a directory\<close>

text \<open>
  Claim C1 says that two runs on the same source path give byte-identical catalog files,
  the files of a package being processed in the same order on every run.
  \<open>parseDir\<close> ranges over the maps that \<open>parser.ParseDir\<close> returns, and Go does
  not fix the order of a \<open>range\<close> over a map. The theorem runs \<open>main\<close> on the
  same package of two files under the two orders the loop can deliver: the entries of
  \<open>default.po\<close> come out in the order of delivery, so the two files differ.
\<close>

theorem directory_order_changes_catalog:
  \<open>catalogOf (main (sampleEnv [[''pkg/a.go'', ''pkg/b.go'']]) [''xgotext'', ''pkg''] Map.empty) ''default.po''
     = Some (poHeader @
         ''\<newline>#: pkg/a.go:3\<newline>#. po.Get\<newline>msgid "alpha"\<newline>msgstr ""\<newline>'' @
         ''\<newline>#: pkg/b.go:3\<newline>#. po.Get\<newline>msgid "beta"\<newline>msgstr ""\<newline>'') \<and>
   catalogOf (main (sampleEnv [[''pkg/b.go'', ''pkg/a.go'']]) [''xgotext'', ''pkg''] Map.empty) ''default.po''
     = Some (poHeader @
         ''\<newline>#: pkg/b.go:3\<newline>#. po.Get\<newline>msgid "beta"\<newline>msgstr ""\<newline>'' @
         ''\<newline>#: pkg/a.go:3\<newline>#. po.Get\<newline>msgid "alpha"\<newline>msgstr ""\<newline>'') \<and>
   catalogOf (main (sampleEnv [[''pkg/a.go'', ''pkg/b.go'']]) [''xgotext'', ''pkg''] Map.empty) ''default.po''
     \<noteq> catalogOf (main (sampleEnv [[''pkg/b.go'', ''pkg/a.go'']]) [''xgotext'', ''pkg''] Map.empty) ''default.po''\<close>
proof -
  have ab: \<open>catalogOf (main (sampleEnv [[''pkg/a.go'', ''pkg/b.go'']]) [''xgotext'', ''pkg''] Map.empty) ''default.po''
     = Some (poHeader @
         ''\<newline>#: pkg/a.go:3\<newline>#. po.Get\<newline>msgid "alpha"\<newline>msgstr ""\<newline>'' @
         ''\<newline>#: pkg/b.go:3\<newline>#. po.Get\<newline>msgid "beta"\<newline>msgstr ""\<newline>'')\<close>
    using two_file_run [where E = "sampleEnv [[''pkg/a.go'', ''pkg/b.go'']]" and dir = "''pkg''"
        and ?f1.0 = "''pkg/a.go''" and ?f2.0 = "''pkg/b.go''" and prog = "''xgotext''"
        and disk = Map.empty, OF sampleEnv_simps(1,2)]
    by (simp add: sampleEnv_simps sampleParseFile_simps po_block_def quoted_def showNat_3)
  have ba: \<open>catalogOf (main (sampleEnv [[''pkg/b.go'', ''pkg/a.go'']]) [''xgotext'', ''pkg''] Map.empty) ''default.po''
     = Some (poHeader @
         ''\<newline>#: pkg/b.go:3\<newline>#. po.Get\<newline>msgid "beta"\<newline>msgstr ""\<newline>'' @
         ''\<newline>#: pkg/a.go:3\<newline>#. po.Get\<newline>msgid "alpha"\<newline>msgstr ""\<newline>'')\<close>
    using two_file_run [where E = "sampleEnv [[''pkg/b.go'', ''pkg/a.go'']]" and dir = "''pkg''"
        and ?f1.0 = "''pkg/b.go''" and ?f2.0 = "''pkg/a.go''" and prog = "''xgotext''"
        and disk = Map.empty, OF sampleEnv_simps(1,2)]
    by (simp add: sampleEnv_simps sampleParseFile_simps po_block_def quoted_def showNat_3)
  show ?thesis
    unfolding ab ba by simp
qed

subsection \<open>C2: the count argument of the plural variants\<close>

text \<open>
  Claim C2 says that a call of \<open>GetN\<close>, \<open>GetNC\<close> or \<open>GetNDC\<close> whose count
  argument is neither an integer literal nor an identifier of a variable or constant is
  skipped. \<open>parseGetN\<close> does skip it (third conjunct); \<open>parseGetNC\<close> and
  \<open>parseGetNDC\<close> never look at the count argument, and with a call expression in that
  position they write the entry (first and second conjunct).
\<close>

theorem plural_count_unchecked:
  \<open>catalogOf
      (inspectCallExpr exampleEnv (SelectorExpr (Ident ''po'' None) ''GetNC'')
         \<lparr>Filename = ''a.go'', Line = 17\<rparr>
         [strLit ''%d apple'', strLit ''%d apples'',
          CallExpr (Ident ''count'' None) \<lparr>Filename = ''a.go'', Line = 17\<rparr> [], strLit ''fruit'']
         (initState Map.empty))
      ''default.po''
    = Some (poHeader @
        ''\<newline>#: a.go:17\<newline>#. po.GetNC\<newline>msgctxt "fruit"\<newline>msgid "%d apple"\<newline>'' @
        ''msgid_plural "%d apples"\<newline>msgstr[0] ""\<newline>msgstr[1] ""\<newline>'') \<and>
   catalogOf
      (inspectCallExpr exampleEnv (SelectorExpr (Ident ''po'' None) ''GetNDC'')
         \<lparr>Filename = ''a.go'', Line = 17\<rparr>
         [strLit ''app'', strLit ''%d apple'', strLit ''%d apples'',
          CallExpr (Ident ''count'' None) \<lparr>Filename = ''a.go'', Line = 17\<rparr> [], strLit ''fruit'']
         (initState Map.empty))
      ''app.po''
    = Some (poHeader @
        ''\<newline>#: a.go:17\<newline>#. po.GetNDC\<newline>msgctxt "fruit"\<newline>msgid "%d apple"\<newline>'' @
        ''msgid_plural "%d apples"\<newline>msgstr[0] ""\<newline>msgstr[1] ""\<newline>'') \<and>
   inspectCallExpr exampleEnv (SelectorExpr (Ident ''po'' None) ''GetN'')
      \<lparr>Filename = ''a.go'', Line = 17\<rparr>
      [strLit ''%d apple'', strLit ''%d apples'',
       CallExpr (Ident ''count'' None) \<lparr>Filename = ''a.go'', Line = 17\<rparr> []]
      (initState Map.empty)
    = Inr (initState Map.empty)\<close>
proof -
  let ?pos = "\<lparr>Filename = ''a.go'', Line = 17\<rparr>"
  let ?cnt = "CallExpr (Ident ''count'' None) ?pos []"
  have nc: "inspectCallExpr exampleEnv (SelectorExpr (Ident ''po'' None) ''GetNC'') ?pos
         [strLit ''%d apple'', strLit ''%d apples'', ?cnt, strLit ''fruit''] (initState Map.empty)
      = appendBlock exampleEnv ''default''
          (po_block \<lparr>rec_domain = ''default'', rec_msgid = quoted ''%d apple'',
             rec_msgidPlural = Some (quoted ''%d apples''), rec_context = Some (quoted ''fruit''),
             rec_location = ?pos, rec_callLabel = ''po.GetNC''\<rparr>) (initState Map.empty)"
    using parseGetNC_matched [where args = "[strLit ''%d apple'', strLit ''%d apples'', ?cnt, strLit ''fruit'']"
        and E = exampleEnv and fn = "SelectorExpr (Ident ''po'' None) ''GetNC''" and lparen = ?pos
        and s = "initState Map.empty"]
    by (simp add: inspectCallExpr_def strLit_def initState_simps)
  have ndc: "inspectCallExpr exampleEnv (SelectorExpr (Ident ''po'' None) ''GetNDC'') ?pos
         [strLit ''app'', strLit ''%d apple'', strLit ''%d apples'', ?cnt, strLit ''fruit'']
         (initState Map.empty)
      = appendBlock exampleEnv ''app''
          (po_block \<lparr>rec_domain = ''app'', rec_msgid = quoted ''%d apple'',
             rec_msgidPlural = Some (quoted ''%d apples''), rec_context = Some (quoted ''fruit''),
             rec_location = ?pos, rec_callLabel = ''po.GetNDC''\<rparr>) (initState Map.empty)"
    using parseGetNDC_matched [where args = "[strLit ''app'', strLit ''%d apple'', strLit ''%d apples'', ?cnt, strLit ''fruit'']"
        and E = exampleEnv and fn = "SelectorExpr (Ident ''po'' None) ''GetNDC''" and lparen = ?pos
        and s = "initState Map.empty" and d = "''app''"]
    by (simp add: inspectCallExpr_def strLit_def exampleEnv_simps plainUnquote_app)
  have n: "inspectCallExpr exampleEnv (SelectorExpr (Ident ''po'' None) ''GetN'') ?pos
         [strLit ''%d apple'', strLit ''%d apples'', ?cnt] (initState Map.empty)
      = Inr (initState Map.empty)"
    by (simp add: inspectCallExpr_def parseGetN_def strLit_def countSwitch_def)
  show ?thesis
    unfolding nc ndc n
    using catalogOf_fresh [where s = "initState Map.empty" and E = exampleEnv and d = "''default''"]
      catalogOf_fresh [where s = "initState Map.empty" and E = exampleEnv and d = "''app''"]
    by (simp add: initState_simps exampleEnv_simps po_block_def quoted_def showNat_17)
qed

subsection \<open>C3: call sites that fail their requirements\<close>

text \<open>
  Claim C3 says that a call whose string positions or count argument fail the
  requirements of its variant writes nothing, does not abort the run and lets the traversal
  go on, also when the count argument is an identifier without a resolved declaration.
  For such an identifier \<open>x.Obj\<close> is nil, and \<open>x.Obj.Kind\<close> in \<open>parseGetN\<close>
  is a nil dereference: the call ends in a panic, and so does the traversal of the file,
  which never reaches the next call. (The lemmas \<open>inspectCallExpr_skips\<close>,
  \<open>inspectCallExpr_unknown\<close> and \<open>parseGetN_count\<close> above are the part of the claim
  that holds.)
\<close>

theorem unresolved_count_panics:
  "inspectCallExpr exampleEnv (SelectorExpr (Ident ''po'' None) ''GetN'')
      \<lparr>Filename = ''a.go'', Line = 12\<rparr>
      [strLit ''1 item'', strLit ''%d items'', Ident ''n'' None]
      (initState Map.empty)
    = Inl Panic \<and>
   inspectNode exampleEnv
      (OtherNode
         [sampleCall ''GetN'' ''a.go'' 12 [strLit ''1 item'', strLit ''%d items'', Ident ''n'' None],
          sampleCall ''Get'' ''a.go'' 13 [strLit ''hello'']])
      (initState Map.empty)
    = Inl Panic"
  by (simp add: inspectCallExpr_def parseGetN_def strLit_def countSwitch_def sampleCall_def)

subsection \<open>C4: the header is written once, by the first resolve\<close>

text \<open>
  Claim C4. The first \<open>getDomainFile\<close> of a domain opens (truncating) the file of the
  domain, writes the header and stores the stream; every later one returns the stored
  stream and leaves the state as it is. So after any sequence of writer calls, and at the
  end of every run of \<open>main\<close>, no two domains share a stream, every registered
  stream has advanced by one header and the texts written for its domain, so that every
  text is written after the header, and the catalog file of every registered domain
  begins with the header. After a sequence of writer calls the registered domains are
  those written to. All of this holds whatever paths \<open>path.Join\<close> gives to the
  domains. When, in addition, the registered domains have distinct catalog paths, each
  catalog file is exactly the header followed by the texts written for its domain in the
  order of the calls.
\<close>

theorem header_written_once:
  "(domainFiles s d = None \<and> \<not> OpenFileFails E (catalogPath E (outputDir s) d) \<longrightarrow>
      getDomainFile E d s =
        Inr (length (openFiles s),
             s\<lparr>openFiles := openFiles s @
                  [\<lparr>fpath = catalogPath E (outputDir s) d, foffset = length poHeader\<rparr>],
               fs := (fs s)(catalogPath E (outputDir s) d \<mapsto> poHeader),
               domainFiles := (domainFiles s)(d \<mapsto> length (openFiles s))\<rparr>)) \<and>
   (\<forall>f. domainFiles s d = Some f \<longrightarrow> getDomainFile E d s = Inr (f, s)) \<and>
   (\<forall>s'. runCalls E cs ((initState disk)\<lparr>outputDir := out\<rparr>) = Inr s' \<longrightarrow>
      inj_on (domainFiles s') (dom (domainFiles s')) \<and>
      dom (domainFiles s') = wdomain ` set cs \<and>
      (\<forall>e f. domainFiles s' e = Some f \<longrightarrow>
         foffset (openFiles s' ! f) =
           length (poHeader @ concat (map wtext (filter (\<lambda>c. wdomain c = e) cs))) \<and>
         (\<exists>c. fs s' (catalogPath E out e) = Some c \<and> take (length poHeader) c = poHeader)) \<and>
      (inj_on (catalogPath E out) (wdomain ` set cs) \<longrightarrow>
         (\<forall>e \<in> wdomain ` set cs.
            fs s' (catalogPath E out e) =
              Some (poHeader @ concat (map wtext (filter (\<lambda>c. wdomain c = e) cs)))))) \<and>
   (\<forall>s'. main E args disk = Inr s' \<longrightarrow>
      inj_on (domainFiles s') (dom (domainFiles s')) \<and>
      (\<forall>e f. domainFiles s' e = Some f \<longrightarrow>
         length poHeader \<le> foffset (openFiles s' ! f) \<and>
         (\<exists>c. fs s' (catalogPath E (outputDir s') e) = Some c \<and>
              take (length poHeader) c = poHeader)) \<and>
      (\<exists>log. headed E s' log \<and>
         (inj_on (catalogPath E (outputDir s')) (dom (domainFiles s')) \<longrightarrow>
            tracked E s' log)))"
proof (intro conjI allI impI ballI)
  assume "domainFiles s d = None \<and> \<not> OpenFileFails E (catalogPath E (outputDir s) d)"
  then show "getDomainFile E d s =
        Inr (length (openFiles s),
             s\<lparr>openFiles := openFiles s @
                  [\<lparr>fpath = catalogPath E (outputDir s) d, foffset = length poHeader\<rparr>],
               fs := (fs s)(catalogPath E (outputDir s) d \<mapsto> poHeader),
               domainFiles := (domainFiles s)(d \<mapsto> length (openFiles s))\<rparr>)"
    by (simp add: getDomainFile_fresh catalogPath_def [symmetric] fileWrite_opened)
next
  fix f assume "domainFiles s d = Some f"
  then show "getDomainFile E d s = Inr (f, s)" by (rule getDomainFile_cached)
next
  fix s' assume run: "runCalls E cs ((initState disk)\<lparr>outputDir := out\<rparr>) = Inr s'"
  have "registry_ok E ((initState disk)\<lparr>outputDir := out\<rparr>)"
    using tracked_initState [where E = E and disk = disk and out = out] by (simp add: tracked_def)
  from registry_ok_runCalls [OF this run]
  show "inj_on (domainFiles s') (dom (domainFiles s'))"
    by (simp add: registry_ok_def)
next
  fix s' assume run: "runCalls E cs ((initState disk)\<lparr>outputDir := out\<rparr>) = Inr s'"
  from runCalls_dom [OF run]
  show "dom (domainFiles s') = wdomain ` set cs"
    by (simp add: initState_def)
next
  fix s' e f
  assume run: "runCalls E cs ((initState disk)\<lparr>outputDir := out\<rparr>) = Inr s'"
    and reg: "domainFiles s' e = Some f"
  have h: "headed E s' ([] @ map (\<lambda>c. (wdomain c, wtext c)) cs)"
    using headed_initState run by (rule headed_runCalls)
  have out: "outputDir s' = out"
    using runCalls_outputDir [OF run] by simp
  show "foffset (openFiles s' ! f) =
      length (poHeader @ concat (map wtext (filter (\<lambda>c. wdomain c = e) cs)))"
    using h reg by (simp add: headed_def contentOf_map)
  show "\<exists>c. fs s' (catalogPath E out e) = Some c \<and> take (length poHeader) c = poHeader"
    using h reg out by (simp add: headed_def)
next
  fix s' e
  assume run: "runCalls E cs ((initState disk)\<lparr>outputDir := out\<rparr>) = Inr s'"
    and inj: "inj_on (catalogPath E out) (wdomain ` set cs)"
    and e: "e \<in> wdomain ` set cs"
  have "tracked E s' ([] @ map (\<lambda>c. (wdomain c, wtext c)) cs) \<and>
          outputDir s' = outputDir ((initState disk)\<lparr>outputDir := out\<rparr>)"
    using tracked_initState _ run by (rule tracked_runCalls) (use inj in simp)
  then have tr: "tracked E s' (map (\<lambda>c. (wdomain c, wtext c)) cs)" and out: "outputDir s' = out"
    by simp_all
  from runCalls_dom [OF run] e have "e \<in> dom (domainFiles s')"
    by (simp add: initState_def)
  then obtain g where "domainFiles s' e = Some g"
    by blast
  with tr out show "fs s' (catalogPath E out e) =
      Some (poHeader @ concat (map wtext (filter (\<lambda>c. wdomain c = e) cs)))"
    by (simp add: tracked_def contentOf_map)
next
  fix s' assume "main E args disk = Inr s'"
  then have "registry_ok E s'" by (rule registry_ok_main)
  then show "inj_on (domainFiles s') (dom (domainFiles s'))"
    by (simp add: registry_ok_def)
next
  fix s' e f
  assume run: "main E args disk = Inr s'" and reg: "domainFiles s' e = Some f"
  from main_headed [OF run] obtain log where h: "headed E s' log" by blast
  from h reg have "foffset (openFiles s' ! f) = length (contentOf log e)"
    by (simp add: headed_def)
  with contentOf_length [of log e] show "length poHeader \<le> foffset (openFiles s' ! f)"
    by simp
  from h reg
  show "\<exists>c. fs s' (catalogPath E (outputDir s') e) = Some c \<and> take (length poHeader) c = poHeader"
    by (simp add: headed_def)
next
  fix s' assume "main E args disk = Inr s'"
  then obtain log where h: "headed E s' log"
    and tr: "inj_on (catalogPath E (outputDir s')) (fst ` set log) \<longrightarrow> tracked E s' log"
    using main_headed by blast
  from h have "dom (domainFiles s') = fst ` set log"
    by (simp add: headed_def)
  with h tr show "\<exists>log. headed E s' log \<and>
      (inj_on (catalogPath E (outputDir s')) (dom (domainFiles s')) \<longrightarrow> tracked E s' log)"
    by auto
qed

theorem header_written_once_witness:
  \<open>\<exists>s'. runCalls exampleEnv sampleCalls ((initState Map.empty)\<lparr>outputDir := ''out''\<rparr>) = Inr s' \<and>
     fs s' ''out/app.po'' =
       Some (poHeader @
         ''\<newline>#: a.go:3\<newline>#. po.GetD\<newline>msgid "save"\<newline>msgstr ""\<newline>'' @
         ''\<newline>#: a.go:5\<newline>#. po.GetDC\<newline>msgctxt "menu"\<newline>msgid "open"\<newline>msgstr ""\<newline>'') \<and>
     fs s' ''out/default.po'' =
       Some (poHeader @ ''\<newline>#: a.go:4\<newline>#. po.Get\<newline>msgid "hello"\<newline>msgstr ""\<newline>'') \<and>
     domainFiles s' ''app'' \<noteq> domainFiles s' ''default'' \<and>
     (\<exists>f. domainFiles s' ''default'' = Some f \<and>
          foffset (openFiles s' ! f) =
            length (poHeader @ ''\<newline>#: a.go:4\<newline>#. po.Get\<newline>msgid "hello"\<newline>msgstr ""\<newline>''))\<close>
proof -
  obtain s' where run: "runCalls exampleEnv sampleCalls ((initState Map.empty)\<lparr>outputDir := ''out''\<rparr>) = Inr s'"
    using runCalls_total [of exampleEnv sampleCalls] by (auto simp: exampleEnv_simps)
  have doms: "wdomain ` set sampleCalls = {''app'', ''default''}"
    by (auto simp: sampleCalls_def)
  have paths: "catalogPath exampleEnv ''out'' ''app'' = ''out/app.po''"
    "catalogPath exampleEnv ''out'' ''default'' = ''out/default.po''"
    by (simp_all add: catalogPath_def exampleEnv_def plainJoin_def)
  have inj: "inj_on (catalogPath exampleEnv ''out'') (wdomain ` set sampleCalls)"
    by (simp add: doms paths)
  note all = header_written_once [where E = exampleEnv and cs = sampleCalls and disk = Map.empty
      and out = "''out''", THEN conjunct2, THEN conjunct2, THEN conjunct1, rule_format, OF run]
  from all have reg: "inj_on (domainFiles s') (dom (domainFiles s'))"
    by (rule conjunct1)
  from all have dm: "dom (domainFiles s') = wdomain ` set sampleCalls"
    by (rule conjunct2 [THEN conjunct1])
  from all have offs: "\<And>e f. domainFiles s' e = Some f \<Longrightarrow>
      foffset (openFiles s' ! f) =
        length (poHeader @ concat (map wtext (filter (\<lambda>c. wdomain c = e) sampleCalls)))"
    by (simp only:)
  from all have "inj_on (catalogPath exampleEnv ''out'') (wdomain ` set sampleCalls) \<longrightarrow>
      (\<forall>e \<in> wdomain ` set sampleCalls.
      fs s' (catalogPath exampleEnv ''out'' e) =
        Some (poHeader @ concat (map wtext (filter (\<lambda>c. wdomain c = e) sampleCalls))))"
    by (rule conjunct2 [THEN conjunct2, THEN conjunct2])
  with inj have cont: "\<forall>e \<in> wdomain ` set sampleCalls.
      fs s' (catalogPath exampleEnv ''out'' e) =
        Some (poHeader @ concat (map wtext (filter (\<lambda>c. wdomain c = e) sampleCalls)))"
    by (rule rev_mp)
  have ne: "domainFiles s' ''app'' \<noteq> domainFiles s' ''default''"
  proof
    assume eq: "domainFiles s' ''app'' = domainFiles s' ''default''"
    from reg eq have "''app'' = ''default''"
      by (rule inj_onD) (simp_all add: dm doms)
    then show False by simp
  qed
  have "''default'' \<in> dom (domainFiles s')"
    by (simp add: dm doms)
  then obtain f where f: "domainFiles s' ''default'' = Some f"
    by blast
  from offs [OF f] have off: \<open>foffset (openFiles s' ! f) =
      length (poHeader @ ''\<newline>#: a.go:4\<newline>#. po.Get\<newline>msgid "hello"\<newline>msgstr ""\<newline>'')\<close>
    by (simp add: sampleCalls_def quoted_def)
  from cont have "fs s' ''out/app.po'' =
      Some (poHeader @ concat (map wtext (filter (\<lambda>c. wdomain c = ''app'') sampleCalls)))"
    "fs s' ''out/default.po'' =
      Some (poHeader @ concat (map wtext (filter (\<lambda>c. wdomain c = ''default'') sampleCalls)))"
    by (simp_all add: doms paths)
  with ne f off show ?thesis
    using run by (simp add: sampleCalls_def quoted_def)
qed

subsection \<open>C5: what precedes the first entry\<close>

text \<open>
  Claim C5 says that every catalog file begins with the header lines, then exactly one
  blank line, and that nothing else is written before the comment lines of the first entry.
  The raw string of \<open>writePoHeader\<close> does not end after the blank line: it goes on
  with the TAB that indents its closing back quote. The header the program writes is the
  header of the specification, a line feed and a TAB, and in the catalog of a file with one
  \<open>Get\<close> call the TAB and the line feed of the entry stand between the blank line and
  the \<open>#:\<close> comment.
\<close>

theorem header_trailing_tab:
  \<open>poHeader = specHeader @ ''\<newline>'' @ [CHR 0x09] \<and>
   catalogOf (main (sampleEnv []) [''xgotext'', ''a.go''] Map.empty) ''default.po''
     = Some (specHeader @ ''\<newline>'' @ [CHR 0x09] @
         ''\<newline>#: a.go:12\<newline>#. po.Get\<newline>msgid "hello"\<newline>msgstr ""\<newline>'')\<close>
proof -
  have h: "poHeader = specHeader @ ''\<newline>'' @ [CHR 0x09]"
    by (simp add: poHeader_def specHeader_def)
  have pf: "ParseFile (sampleEnv []) ''a.go'' =
      Some (OtherNode [CallExpr (SelectorExpr (Ident ''po'' None) ''Get'')
         \<lparr>Filename = ''a.go'', Line = 12\<rparr> [BasicLit token_STRING (quoted ''hello'')]])"
    by (simp add: sampleEnv_simps sampleParseFile_def sampleCall_def strLit_def)
  have st: "Stat (sampleEnv []) ''a.go'' = Some False"
    by (simp add: sampleEnv_def sampleParseFile_def)
  have "main (sampleEnv []) [''xgotext'', ''a.go''] Map.empty =
      parseFile (sampleEnv []) ''a.go'' (initState Map.empty)"
    using st by (simp add: main_def Let_def)
  then have \<open>catalogOf (main (sampleEnv []) [''xgotext'', ''a.go''] Map.empty) ''default.po''
     = Some (poHeader @
         ''\<newline>#: a.go:12\<newline>#. po.Get\<newline>msgid "hello"\<newline>msgstr ""\<newline>'')\<close>
    using catalogOf_fresh [where s = "(initState Map.empty)\<lparr>currentFile := ''a.go''\<rparr>"
        and E = "sampleEnv []" and d = "''default''"]
    by (simp add: parseFile_one_Get [OF pf] initState_simps sampleEnv_simps po_block_def quoted_def
          showNat_12 initState_def)
  with h show ?thesis by simp
qed

subsection \<open>C6: the block of an extraction record\<close>

text \<open>
  Claim C6. For a call that matches a row of the signature table (argument count, string
  literals, count argument) with a plain identifier as receiver and a domain that decodes,
  the writes of the program are one append, to the stream of the record's domain, of the
  block: blank-line separator, \<open>#: file:line\<close>, \<open>#. receiver.Method\<close>,
  \<open>msgctxt\<close> when the variant has a context, then \<open>msgid\<close>,
  \<open>msgid_plural\<close>, \<open>msgstr[0] ""\<close>, \<open>msgstr[1] ""\<close> for a plural variant and
  \<open>msgid\<close>, \<open>msgstr ""\<close> otherwise, every literal as it stands in the source.
  When the stream of the domain stands at the end of its file, the file afterwards is its
  former content (the header, for a domain met for the first time) followed by that block.
\<close>

theorem catalog_block_appended:
  assumes "lookupSignature sel = Some sg" and "literalsMet sg args" and "countMet sg args"
    and "decodeDomain E (currentDomain s) sg args = Some d"
  shows "inspectCallExpr E (SelectorExpr (Ident recv ob) sel) lparen args s =
           appendBlock E d (po_block (recordFor sg d (recv @ ''.'' @ sel) lparen args)) s \<and>
         (\<forall>log s'.
            tracked E s log \<and>
            inj_on (catalogPath E (outputDir s)) (insert d (fst ` set log)) \<and>
            inspectCallExpr E (SelectorExpr (Ident recv ob) sel) lparen args s = Inr s' \<longrightarrow>
            tracked E s'
              (log @ [(d, po_block (recordFor sg d (recv @ ''.'' @ sel) lparen args))]))"
proof -
  have eq: "inspectCallExpr E (SelectorExpr (Ident recv ob) sel) lparen args s =
      appendBlock E d (po_block (recordFor sg d (recv @ ''.'' @ sel) lparen args)) s"
    using inspectCallExpr_matched [OF assms(1,2) countMet_GetN [OF assms(1,3)], of E "Ident recv ob" lparen s]
      assms(4)
    by simp
  show ?thesis
  proof (intro conjI allI impI)
    show "inspectCallExpr E (SelectorExpr (Ident recv ob) sel) lparen args s =
        appendBlock E d (po_block (recordFor sg d (recv @ ''.'' @ sel) lparen args)) s"
      by (rule eq)
  next
    fix log s'
    assume a: "tracked E s log \<and>
        inj_on (catalogPath E (outputDir s)) (insert d (fst ` set log)) \<and>
        inspectCallExpr E (SelectorExpr (Ident recv ob) sel) lparen args s = Inr s'"
    then have tr: "tracked E s log"
      and inj: "inj_on (catalogPath E (outputDir s)) (insert d (fst ` set log))"
      and run: "inspectCallExpr E (SelectorExpr (Ident recv ob) sel) lparen args s = Inr s'"
      by blast+
    from run have "appendBlock E d (po_block (recordFor sg d (recv @ ''.'' @ sel) lparen args)) s = Inr s'"
      by (simp only: eq)
    with tr inj
    show "tracked E s' (log @ [(d, po_block (recordFor sg d (recv @ ''.'' @ sel) lparen args))])"
      by (rule tracked_appendBlock)
  qed
qed

theorem catalog_block_appended_witness:
  \<open>inspectCallExpr exampleEnv (SelectorExpr (Ident ''po'' None) ''GetNC'')
     \<lparr>Filename = ''a.go'', Line = 17\<rparr>
     [BasicLit token_STRING (quoted ''%d apple''), BasicLit token_STRING (quoted ''%d apples''),
      Ident ''n'' (Some Var), BasicLit token_STRING (quoted ''fruit'')]
     (initState Map.empty)
   = appendBlock exampleEnv ''default''
      (''\<newline>#: a.go:17\<newline>#. po.GetNC\<newline>msgctxt "fruit"\<newline>msgid "%d apple"\<newline>'' @
       ''msgid_plural "%d apples"\<newline>msgstr[0] ""\<newline>msgstr[1] ""\<newline>'')
      (initState Map.empty)\<close>
proof -
  let ?args = "[BasicLit token_STRING (quoted ''%d apple''), BasicLit token_STRING (quoted ''%d apples''),
      Ident ''n'' (Some Var), BasicLit token_STRING (quoted ''fruit'')]"
  have look: "lookupSignature ''GetNC'' = Some (signatureTable ! 5)"
    by (rule lookupSignature_eval)
  have lits: "literalsMet (signatureTable ! 5) ?args"
    by (simp add: signatureTable_def literalsMet_def isStringLit_def)
  have cnt: "countMet (signatureTable ! 5) ?args"
    by (simp add: signatureTable_def countMet_def countArgOK_def)
  have dom: "decodeDomain exampleEnv (currentDomain (initState Map.empty)) (signatureTable ! 5) ?args
      = Some ''default''"
    by (simp add: signatureTable_def decodeDomain_def initState_def)
  from catalog_block_appended [OF look lits cnt dom, of "''po''" None
      "\<lparr>Filename = ''a.go'', Line = 17\<rparr>", THEN conjunct1]
  show ?thesis
    by (simp add: signatureTable_def recordFor_def po_block_def msgidPosition_def
          pluralPosition_def quoted_def showNat_17)
qed

subsection \<open>C7: the fields of the variants with a domain argument\<close>

text \<open>
  Claim C7. For a fully matched call of \<open>GetD\<close>, \<open>GetND\<close>, \<open>GetDC\<close> or
  \<open>GetNDC\<close> the entry goes to the domain that argument 0 unquotes to, its message id
  is the literal at position 1 with its quotes, its plural id (\<open>GetND\<close>,
  \<open>GetNDC\<close>) the literal at position 2, and its context the literal at position 2
  for \<open>GetDC\<close> and at position 4 for \<open>GetNDC\<close>.
\<close>

theorem domain_variant_fields:
  assumes "args ! 0 = BasicLit token_STRING v0" and "args ! 1 = BasicLit token_STRING v1"
    and "Unquote E v0 = Some d"
  shows
    "(1 < length args \<longrightarrow>
        inspectCallExpr E (SelectorExpr (Ident recv ob) ''GetD'') lparen args s =
          appendBlock E d
            (po_block \<lparr>rec_domain = d, rec_msgid = v1, rec_msgidPlural = None, rec_context = None,
               rec_location = lparen, rec_callLabel = recv @ ''.GetD''\<rparr>) s) \<and>
     (2 < length args \<and> args ! 2 = BasicLit token_STRING v2 \<longrightarrow>
        inspectCallExpr E (SelectorExpr (Ident recv ob) ''GetND'') lparen args s =
          appendBlock E d
            (po_block \<lparr>rec_domain = d, rec_msgid = v1, rec_msgidPlural = Some v2, rec_context = None,
               rec_location = lparen, rec_callLabel = recv @ ''.GetND''\<rparr>) s \<and>
        inspectCallExpr E (SelectorExpr (Ident recv ob) ''GetDC'') lparen args s =
          appendBlock E d
            (po_block \<lparr>rec_domain = d, rec_msgid = v1, rec_msgidPlural = None, rec_context = Some v2,
               rec_location = lparen, rec_callLabel = recv @ ''.GetDC''\<rparr>) s) \<and>
     (4 < length args \<and> args ! 2 = BasicLit token_STRING v2 \<and> args ! 4 = BasicLit token_STRING v4 \<longrightarrow>
        inspectCallExpr E (SelectorExpr (Ident recv ob) ''GetNDC'') lparen args s =
          appendBlock E d
            (po_block \<lparr>rec_domain = d, rec_msgid = v1, rec_msgidPlural = Some v2, rec_context = Some v4,
               rec_location = lparen, rec_callLabel = recv @ ''.GetNDC''\<rparr>) s)"
proof (intro conjI impI)
  assume "1 < length args"
  from parseGetD_matched [OF this assms, of "SelectorExpr (Ident recv ob) ''GetD''" lparen s]
  show "inspectCallExpr E (SelectorExpr (Ident recv ob) ''GetD'') lparen args s =
          appendBlock E d
            (po_block \<lparr>rec_domain = d, rec_msgid = v1, rec_msgidPlural = None, rec_context = None,
               rec_location = lparen, rec_callLabel = recv @ ''.GetD''\<rparr>) s"
    by (simp add: inspectCallExpr_def)
next
  assume a: "2 < length args \<and> args ! 2 = BasicLit token_STRING v2"
  then have len: "2 < length args" and a2: "args ! 2 = BasicLit token_STRING v2" by simp_all
  from parseGetND_matched [OF len assms(1,2) a2 assms(3), of "SelectorExpr (Ident recv ob) ''GetND''" lparen s]
  show "inspectCallExpr E (SelectorExpr (Ident recv ob) ''GetND'') lparen args s =
          appendBlock E d
            (po_block \<lparr>rec_domain = d, rec_msgid = v1, rec_msgidPlural = Some v2, rec_context = None,
               rec_location = lparen, rec_callLabel = recv @ ''.GetND''\<rparr>) s"
    by (simp add: inspectCallExpr_def)
  from parseGetDC_matched [OF len assms(1,2) a2 assms(3), of "SelectorExpr (Ident recv ob) ''GetDC''" lparen s]
  show "inspectCallExpr E (SelectorExpr (Ident recv ob) ''GetDC'') lparen args s =
          appendBlock E d
            (po_block \<lparr>rec_domain = d, rec_msgid = v1, rec_msgidPlural = None, rec_context = Some v2,
               rec_location = lparen, rec_callLabel = recv @ ''.GetDC''\<rparr>) s"
    by (simp add: inspectCallExpr_def)
next
  assume a: "4 < length args \<and> args ! 2 = BasicLit token_STRING v2 \<and> args ! 4 = BasicLit token_STRING v4"
  then have len: "4 < length args" and a2: "args ! 2 = BasicLit token_STRING v2"
    and a4: "args ! 4 = BasicLit token_STRING v4" by simp_all
  from parseGetNDC_matched [OF len assms(1,2) a2 a4 assms(3), of "SelectorExpr (Ident recv ob) ''GetNDC''" lparen s]
  show "inspectCallExpr E (SelectorExpr (Ident recv ob) ''GetNDC'') lparen args s =
          appendBlock E d
            (po_block \<lparr>rec_domain = d, rec_msgid = v1, rec_msgidPlural = Some v2, rec_context = Some v4,
               rec_location = lparen, rec_callLabel = recv @ ''.GetNDC''\<rparr>) s"
    by (simp add: inspectCallExpr_def)
qed

theorem domain_variant_fields_witness:
  "inspectCallExpr exampleEnv (SelectorExpr (Ident ''po'' None) ''GetNDC'')
      \<lparr>Filename = ''a.go'', Line = 17\<rparr>
      [strLit ''app'', strLit ''%d apple'', strLit ''%d apples'', Ident ''n'' (Some Var), strLit ''fruit'']
      (initState Map.empty)
    = appendBlock exampleEnv ''app''
        (po_block \<lparr>rec_domain = ''app'', rec_msgid = quoted ''%d apple'',
           rec_msgidPlural = Some (quoted ''%d apples''), rec_context = Some (quoted ''fruit''),
           rec_location = \<lparr>Filename = ''a.go'', Line = 17\<rparr>, rec_callLabel = ''po.GetNDC''\<rparr>)
        (initState Map.empty)"
  using domain_variant_fields [where args = "[strLit ''app'', strLit ''%d apple'', strLit ''%d apples'',
        Ident ''n'' (Some Var), strLit ''fruit'']" and ?v0.0 = "quoted ''app''"
      and ?v1.0 = "quoted ''%d apple''" and ?v2.0 = "quoted ''%d apples''"
      and ?v4.0 = "quoted ''fruit''" and E = exampleEnv and d = "''app''" and recv = "''po''"
      and ob = None and lparen = "\<lparr>Filename = ''a.go'', Line = 17\<rparr>" and s = "initState Map.empty"]
  by (simp add: strLit_def exampleEnv_simps plainUnquote_app)

subsection \<open>C8: a domain literal that does not unquote\<close>

text \<open>
  Claim C8 says that every call of \<open>GetD\<close>, \<open>GetND\<close>, \<open>GetDC\<close> or
  \<open>GetNDC\<close> whose argument 0 fails to unquote aborts the run, and that a successful
  unquote never aborts. Both fail as stated. \<open>strconv.Unquote\<close> is called only after
  the argument count and all string positions have been checked, so a call with a literal
  that does not unquote and a variable as message is skipped; and after a successful
  unquote the run still ends when the receiver is not a plain identifier (the type
  assertion panics) or the catalog file cannot be opened (\<open>log.Fatal\<close>).
\<close>

theorem domain_unquote_counterexample:
  \<open>plainUnquote ''"app'' = None \<and>
   inspectCallExpr exampleEnv (SelectorExpr (Ident ''po'' None) ''GetD'')
      \<lparr>Filename = ''a.go'', Line = 3\<rparr>
      [BasicLit token_STRING ''"app'', Ident ''msg'' (Some Var)] (initState Map.empty)
    = Inr (initState Map.empty) \<and>
   plainUnquote (quoted ''app'') = Some ''app'' \<and>
   inspectCallExpr exampleEnv (SelectorExpr (SelectorExpr (Ident ''a'' None) ''b'') ''GetD'')
      \<lparr>Filename = ''a.go'', Line = 3\<rparr>
      [strLit ''app'', strLit ''save''] (initState Map.empty)
    = Inl Panic \<and>
   inspectCallExpr (exampleEnv\<lparr>OpenFileFails := \<lambda>p. True\<rparr>) (SelectorExpr (Ident ''po'' None) ''GetD'')
      \<lparr>Filename = ''a.go'', Line = 3\<rparr>
      [strLit ''app'', strLit ''save''] (initState Map.empty)
    = Inl Fatal\<close>
  by (simp add: plainUnquote_open plainUnquote_app inspectCallExpr_def parseGetD_def strLit_def
        exampleEnv_def writeComments_def getDomainFile_def initState_def)

text \<open>
  Claim C8 as amended. For a call of one of the four variants that has the argument count
  and the string literals of its variant: when argument 0 does not unquote, the call ends
  in the fatal error, whatever the receiver, and nothing is written; when it unquotes,
  the receiver is a plain identifier and the domain is registered or its file can be
  opened, the call returns.
\<close>

theorem domain_unquote_outcome:
  assumes "lookupSignature sel = Some sg" and "domainSource sg = Some i" and "literalsMet sg args"
  shows "(Unquote E (litValue (args ! i)) = None \<longrightarrow>
            inspectCallExpr E (SelectorExpr x sel) lparen args s = Inl Fatal) \<and>
         (\<forall>d. Unquote E (litValue (args ! i)) = Some d \<and>
              (domainFiles s d \<noteq> None \<or> \<not> OpenFileFails E (Join E (outputDir s) (d @ ''.po''))) \<longrightarrow>
              (\<exists>s'. inspectCallExpr E (SelectorExpr (Ident recv ob) sel) lparen args s = Inr s'))"
proof -
  have notN: "sel \<noteq> ''GetN''"
    using assms(1,2) lookupSignature_GetN [of sg] by auto
  have m: "inspectCallExpr E (SelectorExpr y sel) lparen args s =
           (case decodeDomain E (currentDomain s) sg args of
              None \<Rightarrow> Inl Fatal
            | Some d \<Rightarrow>
                (case callLabel (SelectorExpr y sel) of
                   Inl e \<Rightarrow> Inl e
                 | Inr lbl \<Rightarrow> appendBlock E d (po_block (recordFor sg d lbl lparen args)) s))" for y
    using notN by (intro inspectCallExpr_matched [OF assms(1,3)]) simp
  have dd: "decodeDomain E (currentDomain s) sg args = Unquote E (litValue (args ! i))"
    using assms(2) by (simp add: decodeDomain_def)
  show ?thesis
    using m [of x] m [of "Ident recv ob"] dd
    by (auto intro!: appendBlock_succeeds)
qed

theorem domain_unquote_outcome_witness:
  \<open>inspectCallExpr exampleEnv (SelectorExpr (Ident ''po'' None) ''GetD'')
      \<lparr>Filename = ''a.go'', Line = 3\<rparr>
      [BasicLit token_STRING ''"app'', strLit ''save''] (initState Map.empty)
    = Inl Fatal \<and>
   (\<exists>s'. inspectCallExpr exampleEnv (SelectorExpr (Ident ''po'' None) ''GetD'')
      \<lparr>Filename = ''a.go'', Line = 3\<rparr>
      [strLit ''app'', strLit ''save''] (initState Map.empty) = Inr s')\<close>
proof -
  have l: \<open>literalsMet (signatureTable ! 2) [BasicLit token_STRING ''"app'', strLit ''save'']\<close>
    by (simp add: signatureTable_def literalsMet_def isStringLit_def strLit_def)
  show ?thesis
    using domain_unquote_outcome [OF sig_GetD(1,2) l, where E = exampleEnv and s = "initState Map.empty"
        and x = "Ident ''po'' None" and lparen = "\<lparr>Filename = ''a.go'', Line = 3\<rparr>"]
      domain_unquote_outcome [OF sig_GetD(1,2) sig_GetD_sample, where E = exampleEnv and s = "initState Map.empty"
        and recv = "''po''" and ob = None
        and lparen = "\<lparr>Filename = ''a.go'', Line = 3\<rparr>"]
    by (simp add: exampleEnv_simps plainUnquote_open plainUnquote_app strLit_def)
qed

subsection \<open>C9: the frame of a call with domain app\<close>

text \<open>
  Claim C9 says that a matched \<open>GetD\<close> call with the domain literal \<open>"app"\<close>
  leaves the stream and the file contents of every other domain unchanged. The file
  contents fail as stated when another registered domain has the catalog path of
  \<open>app\<close>. After \<open>po.GetD("./app", "first")\<close> the domain \<open>./app\<close> is
  registered, \<open>app\<close> is not, and \<open>path.Join\<close> gives both the path
  \<open>app.po\<close>, which holds the header and the entry of \<open>first\<close>. The call
  \<open>po.GetD("app", "save")\<close> then opens \<open>app.po\<close> again, truncating it: the
  file of the domain \<open>./app\<close> has lost its entry and holds the entry of
  \<open>save\<close> instead.
\<close>

theorem getd_app_alias_counterexample:
  \<open>inspectCallExpr aliasEnv (SelectorExpr (Ident ''po'' None) ''GetD'')
      \<lparr>Filename = ''a.go'', Line = 3\<rparr> [strLit ''./app'', strLit ''first'']
      (initState Map.empty)
    = Inr aliasState \<and>
   registry_ok aliasEnv aliasState \<and>
   domainFiles aliasState ''./app'' = Some 0 \<and>
   domainFiles aliasState ''app'' = None \<and>
   catalogPath aliasEnv (outputDir aliasState) ''./app'' = ''app.po'' \<and>
   fs aliasState ''app.po''
     = Some (poHeader @ ''\<newline>#: a.go:3\<newline>#. po.GetD\<newline>msgid "first"\<newline>msgstr ""\<newline>'') \<and>
   catalogOf
      (inspectCallExpr aliasEnv (SelectorExpr (Ident ''po'' None) ''GetD'')
         \<lparr>Filename = ''a.go'', Line = 4\<rparr> [strLit ''app'', strLit ''save''] aliasState)
      ''app.po''
     = Some (poHeader @ ''\<newline>#: a.go:4\<newline>#. po.GetD\<newline>msgid "save"\<newline>msgstr ""\<newline>'')\<close>
proof -
  have first: "inspectCallExpr aliasEnv (SelectorExpr (Ident ''po'' None) ''GetD'')
      \<lparr>Filename = ''a.go'', Line = 3\<rparr> [strLit ''./app'', strLit ''first'']
      (initState Map.empty)
    = appendBlock aliasEnv ''./app''
        (po_block \<lparr>rec_domain = ''./app'', rec_msgid = quoted ''first'', rec_msgidPlural = None,
           rec_context = None, rec_location = \<lparr>Filename = ''a.go'', Line = 3\<rparr>,
           rec_callLabel = ''po.GetD''\<rparr>) (initState Map.empty)"
    using parseGetD_matched [where args = "[strLit ''./app'', strLit ''first'']" and E = aliasEnv
        and d = "''./app''" and fn = "SelectorExpr (Ident ''po'' None) ''GetD''"
        and lparen = "\<lparr>Filename = ''a.go'', Line = 3\<rparr>" and s = "initState Map.empty"]
    by (simp add: inspectCallExpr_def strLit_def aliasEnv_simps plainUnquote_dot_app)
  have a: "inspectCallExpr aliasEnv (SelectorExpr (Ident ''po'' None) ''GetD'')
      \<lparr>Filename = ''a.go'', Line = 3\<rparr> [strLit ''./app'', strLit ''first'']
      (initState Map.empty) = Inr aliasState"
    unfolding first
    using appendBlock_fresh [where s = "initState Map.empty" and d = "''./app''" and E = aliasEnv]
    by (simp add: initState_simps aliasEnv_simps aliasState_def initState_def po_block_def
          quoted_def showNat_3)
  have b: "registry_ok aliasEnv aliasState"
    by (simp add: registry_ok_def aliasState_def aliasEnv_simps)
  have second: "inspectCallExpr aliasEnv (SelectorExpr (Ident ''po'' None) ''GetD'')
         \<lparr>Filename = ''a.go'', Line = 4\<rparr> [strLit ''app'', strLit ''save''] aliasState
    = appendBlock aliasEnv ''app''
        (po_block \<lparr>rec_domain = ''app'', rec_msgid = quoted ''save'', rec_msgidPlural = None,
           rec_context = None, rec_location = \<lparr>Filename = ''a.go'', Line = 4\<rparr>,
           rec_callLabel = ''po.GetD''\<rparr>) aliasState"
    using parseGetD_matched [where args = "[strLit ''app'', strLit ''save'']" and E = aliasEnv
        and d = "''app''" and fn = "SelectorExpr (Ident ''po'' None) ''GetD''"
        and lparen = "\<lparr>Filename = ''a.go'', Line = 4\<rparr>" and s = aliasState]
    by (simp add: inspectCallExpr_def strLit_def aliasEnv_simps plainUnquote_app)
  have c: \<open>catalogOf
      (inspectCallExpr aliasEnv (SelectorExpr (Ident ''po'' None) ''GetD'')
         \<lparr>Filename = ''a.go'', Line = 4\<rparr> [strLit ''app'', strLit ''save''] aliasState)
      ''app.po''
     = Some (poHeader @ ''\<newline>#: a.go:4\<newline>#. po.GetD\<newline>msgid "save"\<newline>msgstr ""\<newline>'')\<close>
    unfolding second
    using catalogOf_fresh [where s = aliasState and E = aliasEnv and d = "''app''"]
    by (simp add: aliasState_def aliasEnv_simps po_block_def quoted_def showNat_4)
  show ?thesis
    using a b c by (simp add: aliasState_def aliasEnv_simps)
qed

text \<open>
  Claim C9 as amended. In a state with a well-formed registry (every state the program
  reaches, lemma \<open>registry_ok_main\<close>), a \<open>GetD\<close> call whose domain literal
  unquotes to \<open>app\<close> and that returns writes to the stream registered for
  \<open>app\<close>, which is open on the catalog path of \<open>app\<close>. For every other domain
  the registry entry and the stream (path and offset) are unchanged, and every file at a
  path other than the catalog path of \<open>app\<close> keeps its content: so does
  \<open>default.po\<close>, its path differing from that of \<open>app.po\<close>.
\<close>

theorem getd_app_frame:
  assumes ok: "registry_ok E s"
    and len: "1 < length args"
    and a0: "args ! 0 = BasicLit token_STRING v0" and a1: "args ! 1 = BasicLit token_STRING v1"
    and unq: "Unquote E v0 = Some ''app''"
    and run: "inspectCallExpr E (SelectorExpr (Ident recv ob) ''GetD'') lparen args s = Inr s'"
  shows
    "(\<exists>f. domainFiles s' ''app'' = Some f \<and> f < length (openFiles s') \<and>
          fpath (openFiles s' ! f) = catalogPath E (outputDir s) ''app'') \<and>
     (\<forall>e. e \<noteq> ''app'' \<longrightarrow>
          domainFiles s' e = domainFiles s e \<and>
          (\<forall>g. domainFiles s e = Some g \<longrightarrow> openFiles s' ! g = openFiles s ! g)) \<and>
     (\<forall>p. p \<noteq> catalogPath E (outputDir s) ''app'' \<longrightarrow> fs s' p = fs s p) \<and>
     (catalogPath E (outputDir s) ''default'' \<noteq> catalogPath E (outputDir s) ''app'' \<longrightarrow>
          fs s' (catalogPath E (outputDir s) ''default'') = fs s (catalogPath E (outputDir s) ''default''))"
proof -
  from parseGetD_matched [OF len a0 a1 unq, of "SelectorExpr (Ident recv ob) ''GetD''" lparen s] run
  obtain blk where app: "appendBlock E ''app'' blk s = Inr s'"
    by (simp add: inspectCallExpr_def)
  have ok': "registry_ok E s'"
    using ok app by (rule registry_ok_appendBlock)
  have out: "outputDir s' = outputDir s"
    using app by (rule appendBlock_outputDir)
  from appendBlock_dom [OF app] obtain f where f: "domainFiles s' ''app'' = Some f"
    by blast
  with ok' out have "f < length (openFiles s') \<and> fpath (openFiles s' ! f) = catalogPath E (outputDir s) ''app''"
    by (simp add: registry_ok_def)
  with f appendBlock_frame [OF ok app] show ?thesis
    by blast
qed

theorem getd_app_frame_witness:
  "\<exists>s'. inspectCallExpr exampleEnv (SelectorExpr (Ident ''po'' None) ''GetD'')
        \<lparr>Filename = ''a.go'', Line = 3\<rparr> [strLit ''app'', strLit ''save'']
        (initState (Map.empty(''default.po'' \<mapsto> ''old''))) = Inr s' \<and>
      fs s' ''default.po'' = Some ''old'' \<and>
      domainFiles s' ''default'' = None \<and>
      (\<exists>f. domainFiles s' ''app'' = Some f \<and> fpath (openFiles s' ! f) = ''app.po'')"
proof -
  let ?s = "initState (Map.empty(''default.po'' \<mapsto> ''old''))"
  let ?call = "inspectCallExpr exampleEnv (SelectorExpr (Ident ''po'' None) ''GetD'')
        \<lparr>Filename = ''a.go'', Line = 3\<rparr> [strLit ''app'', strLit ''save''] ?s"
  have ok: "registry_ok exampleEnv ?s"
    by (simp add: registry_ok_def initState_def)
  from sample_GetD_runs obtain s' where run: "?call = Inr s'"
    by blast
  from getd_app_frame [OF ok _ _ _ _ run, of "quoted ''app''" "quoted ''save''"]
  have "(\<exists>f. domainFiles s' ''app'' = Some f \<and> fpath (openFiles s' ! f) = ''app.po'') \<and>
      domainFiles s' ''default'' = None \<and> fs s' ''default.po'' = Some ''old''"
    by (auto simp: strLit_def exampleEnv_simps plainUnquote_app initState_simps)
  with run show ?thesis by blast
qed

subsection \<open>C10: the receiver of a matched call\<close>

text \<open>
  Claim C10 says that a call with the method name of a variant and string literals at the
  positions the variant requires is never skipped when its receiver is not a plain
  identifier: the type assertion of the label fails instead. This fails as stated for
  \<open>GetN\<close>, whose type switch on the count argument comes before the label: the call
  \<open>a.b.GetN("x", "y", count())\<close> has the method name and both string literals, its
  receiver is a chained selector, and it is skipped, the state being left as it is.
\<close>

theorem receiver_assertion_counterexample:
  "lookupSignature ''GetN'' = Some (signatureTable ! 1) \<and>
   literalsMet (signatureTable ! 1)
     [strLit ''x'', strLit ''y'', CallExpr (Ident ''count'' None) \<lparr>Filename = ''a.go'', Line = 3\<rparr> []] \<and>
   isIdent (SelectorExpr (Ident ''a'' None) ''b'') = False \<and>
   inspectCallExpr exampleEnv (SelectorExpr (SelectorExpr (Ident ''a'' None) ''b'') ''GetN'')
      \<lparr>Filename = ''a.go'', Line = 3\<rparr>
      [strLit ''x'', strLit ''y'', CallExpr (Ident ''count'' None) \<lparr>Filename = ''a.go'', Line = 3\<rparr> []]
      (initState Map.empty)
    = Inr (initState Map.empty)"
  by (simp add: lookupSignature_eval signatureTable_def literalsMet_def isStringLit_def strLit_def
        isIdent_def inspectCallExpr_def parseGetN_def countSwitch_def)

text \<open>
  Claim C10 as amended. Take a call with the method name of a variant and string literals
  at the positions the variant requires. Unless the variant is \<open>GetN\<close> and its type
  switch rejects the count argument, the label \<open>receiver.Method\<close> is built by two
  type assertions that take the receiver to be a plain identifier: with such a receiver
  the call never panics; with any other receiver (a chained selector, a call) the call is
  not skipped, it ends in the panic of the failed assertion, except that for a variant
  with a domain argument that does not unquote the fatal error of the unquote comes
  first. For \<open>GetN\<close> with a count argument that the type switch rejects the call is
  skipped whatever the receiver, and with a count identifier that has no object the call
  panics whatever the receiver.
\<close>

theorem receiver_assertion:
  assumes look: "lookupSignature sel = Some sg" and lits: "literalsMet sg args"
  shows
    "((sel = ''GetN'' \<longrightarrow> countSwitch (args ! 2) = Inr True) \<longrightarrow>
        (isIdent x \<longrightarrow> inspectCallExpr E (SelectorExpr x sel) lparen args s \<noteq> Inl Panic) \<and>
        (\<not> isIdent x \<longrightarrow>
           inspectCallExpr E (SelectorExpr x sel) lparen args s =
             (case decodeDomain E (currentDomain s) sg args of
                None \<Rightarrow> Inl Fatal
              | Some d \<Rightarrow> Inl Panic))) \<and>
     (sel = ''GetN'' \<and> countSwitch (args ! 2) = Inr False \<longrightarrow>
        inspectCallExpr E (SelectorExpr x sel) lparen args s = Inr s) \<and>
     (sel = ''GetN'' \<and> countSwitch (args ! 2) = Inl Panic \<longrightarrow>
        inspectCallExpr E (SelectorExpr x sel) lparen args s = Inl Panic)"
proof (intro conjI impI)
  assume cnt: "sel = ''GetN'' \<longrightarrow> countSwitch (args ! 2) = Inr True"
  assume id: "isIdent x"
  from cnt have m: "inspectCallExpr E (SelectorExpr x sel) lparen args s =
           (case decodeDomain E (currentDomain s) sg args of
              None \<Rightarrow> Inl Fatal
            | Some d \<Rightarrow>
                (case callLabel (SelectorExpr x sel) of
                   Inl e \<Rightarrow> Inl e
                 | Inr lbl \<Rightarrow> appendBlock E d (po_block (recordFor sg d lbl lparen args)) s))"
    by (intro inspectCallExpr_matched [OF look lits]) simp
  from id obtain lbl where "callLabel (SelectorExpr x sel) = Inr lbl"
    using callLabel_Ident by blast
  with m show "inspectCallExpr E (SelectorExpr x sel) lparen args s \<noteq> Inl Panic"
    by (simp add: appendBlock_not_Panic split: option.splits)
next
  assume cnt: "sel = ''GetN'' \<longrightarrow> countSwitch (args ! 2) = Inr True"
  assume nid: "\<not> isIdent x"
  from cnt have m: "inspectCallExpr E (SelectorExpr x sel) lparen args s =
           (case decodeDomain E (currentDomain s) sg args of
              None \<Rightarrow> Inl Fatal
            | Some d \<Rightarrow>
                (case callLabel (SelectorExpr x sel) of
                   Inl e \<Rightarrow> Inl e
                 | Inr lbl \<Rightarrow> appendBlock E d (po_block (recordFor sg d lbl lparen args)) s))"
    by (intro inspectCallExpr_matched [OF look lits]) simp
  show "inspectCallExpr E (SelectorExpr x sel) lparen args s =
      (case decodeDomain E (currentDomain s) sg args of None \<Rightarrow> Inl Fatal | Some d \<Rightarrow> Inl Panic)"
    unfolding m using nid by (simp add: callLabel_not_Ident split: option.splits)
next
  assume a: "sel = ''GetN'' \<and> countSwitch (args ! 2) = Inr False"
  with look have sg: "sg = signatureTable ! 1"
    by (simp add: lookupSignature_eval)
  from lits have l: "\<not> length args < 3" "isStringLit (args ! 0)" "isStringLit (args ! 1)"
    by (auto simp: sg signatureTable_def literalsMet_def)
  from a have c: "countSwitch (args ! 2) = Inr False" by simp
  from parseGetN_count(1) [OF l c] a
  show "inspectCallExpr E (SelectorExpr x sel) lparen args s = Inr s"
    by (simp add: inspectCallExpr_def)
next
  assume a: "sel = ''GetN'' \<and> countSwitch (args ! 2) = Inl Panic"
  with look have sg: "sg = signatureTable ! 1"
    by (simp add: lookupSignature_eval)
  from lits have l: "\<not> length args < 3" "isStringLit (args ! 0)" "isStringLit (args ! 1)"
    by (auto simp: sg signatureTable_def literalsMet_def)
  from a have c: "countSwitch (args ! 2) = Inl Panic" by simp
  from parseGetN_count(2) [OF l c] a
  show "inspectCallExpr E (SelectorExpr x sel) lparen args s = Inl Panic"
    by (simp add: inspectCallExpr_def)
qed

theorem receiver_assertion_witness:
  "inspectCallExpr exampleEnv (SelectorExpr (SelectorExpr (Ident ''a'' None) ''b'') ''GetD'')
      \<lparr>Filename = ''a.go'', Line = 3\<rparr> [strLit ''app'', strLit ''save''] (initState Map.empty)
    = Inl Panic \<and>
   inspectCallExpr exampleEnv (SelectorExpr (Ident ''po'' None) ''GetD'')
      \<lparr>Filename = ''a.go'', Line = 3\<rparr> [strLit ''app'', strLit ''save''] (initState Map.empty)
    \<noteq> Inl Panic \<and>
   inspectCallExpr exampleEnv (SelectorExpr (SelectorExpr (Ident ''a'' None) ''b'') ''GetNC'')
      \<lparr>Filename = ''a.go'', Line = 3\<rparr>
      [strLit ''x'', strLit ''y'', CallExpr (Ident ''count'' None) \<lparr>Filename = ''a.go'', Line = 3\<rparr> [],
       strLit ''ctx'']
      (initState Map.empty)
    = Inl Panic"
proof -
  have d: "decodeDomain exampleEnv (currentDomain (initState Map.empty)) (signatureTable ! 2)
      [strLit ''app'', strLit ''save''] = Some ''app''"
    by (simp add: decodeDomain_def signatureTable_def exampleEnv_simps strLit_def plainUnquote_app)
  have n: "''GetD'' \<noteq> ''GetN''" by simp
  from receiver_assertion [OF sig_GetD(1) sig_GetD_sample, where E = exampleEnv
      and s = "initState Map.empty" and x = "SelectorExpr (Ident ''a'' None) ''b''"
      and lparen = "\<lparr>Filename = ''a.go'', Line = 3\<rparr>", THEN conjunct1]
  have 1: "inspectCallExpr exampleEnv (SelectorExpr (SelectorExpr (Ident ''a'' None) ''b'') ''GetD'')
      \<lparr>Filename = ''a.go'', Line = 3\<rparr> [strLit ''app'', strLit ''save''] (initState Map.empty)
    = Inl Panic"
    using n by (simp add: d isIdent_def)
  from receiver_assertion [OF sig_GetD(1) sig_GetD_sample, where E = exampleEnv
      and s = "initState Map.empty" and x = "Ident ''po'' None"
      and lparen = "\<lparr>Filename = ''a.go'', Line = 3\<rparr>", THEN conjunct1]
  have 2: "inspectCallExpr exampleEnv (SelectorExpr (Ident ''po'' None) ''GetD'')
      \<lparr>Filename = ''a.go'', Line = 3\<rparr> [strLit ''app'', strLit ''save''] (initState Map.empty)
    \<noteq> Inl Panic"
    using n by (simp add: isIdent_def)
  have look: "lookupSignature ''GetNC'' = Some (signatureTable ! 5)"
    by (rule lookupSignature_eval)
  have lits: "literalsMet (signatureTable ! 5)
      [strLit ''x'', strLit ''y'', CallExpr (Ident ''count'' None) \<lparr>Filename = ''a.go'', Line = 3\<rparr> [],
       strLit ''ctx'']"
    by (simp add: signatureTable_def literalsMet_def isStringLit_def strLit_def)
  have nc: "''GetNC'' \<noteq> ''GetN''" by simp
  from receiver_assertion [OF look lits, where E = exampleEnv
      and s = "initState Map.empty" and x = "SelectorExpr (Ident ''a'' None) ''b''"
      and lparen = "\<lparr>Filename = ''a.go'', Line = 3\<rparr>", THEN conjunct1]
  have 3: "inspectCallExpr exampleEnv (SelectorExpr (SelectorExpr (Ident ''a'' None) ''b'') ''GetNC'')
      \<lparr>Filename = ''a.go'', Line = 3\<rparr>
      [strLit ''x'', strLit ''y'', CallExpr (Ident ''count'' None) \<lparr>Filename = ''a.go'', Line = 3\<rparr> [],
       strLit ''ctx'']
      (initState Map.empty)
    = Inl Panic"
    using nc by (simp add: isIdent_def decodeDomain_def signatureTable_def)
  from 1 2 3 show ?thesis by (intro conjI)
qed

end
